theory Spec2Isabelle
  imports Complex_Main "HOL-Library.AList"
begin

text \<open>
  Forage for Figma: a server that relays commands over one WebSocket to a plugin inside
  Figma (\<open>PluginBridge\<close>), and the plugin's handlers, which project scene nodes
  (\<open>simplifyNode\<close>), walk a subtree to a depth, compare two nodes, score similar nodes
  and infer a state machine. The definitions follow the TypeScript sources; the
  properties are proved after all definitions.
\<close>

section \<open>JavaScript values\<close>

text \<open>
  Values that cross the bridge or end up in a projection are plain JSON data, plus
  \<open>undefined\<close>. A JavaScript number is modelled as an exact rational; an object is an
  association list in insertion order, which is the order \<open>Object.keys\<close> and
  \<open>JSON.stringify\<close> enumerate string keys in (no key of this program is an integer index).
\<close>

datatype jv =
    JUndefined
  | JNull
  | JBool bool
  | JNum rat
  | JStr string
  | JArr "jv list"
  | JObj "(string \<times> jv) list"

subsection \<open>\<open>String(n)\<close> for a natural number\<close>

definition digit :: "nat \<Rightarrow> char" where
  "digit d = ''0123456789abcdef'' ! d"

fun String_nat :: "nat \<Rightarrow> string" where
  "String_nat n = (if n < 10 then [digit n] else String_nat (n div 10) @ [digit (n mod 10)])"

declare String_nat.simps [simp del]

text \<open>The inverse reading of a decimal string, used to show that \<open>String\<close> is injective.\<close>

definition digit_val :: "char \<Rightarrow> nat" where
  "digit_val c = length (takeWhile (\<lambda>d. d \<noteq> c) ''0123456789'')"

definition read_nat :: "string \<Rightarrow> nat" where
  "read_nat cs = foldl (\<lambda>a c. 10 * a + digit_val c) 0 cs"

subsection \<open>Numbers and \<open>JSON.stringify\<close>\<close>

text \<open>
  \<open>Math.round\<close> rounds to the nearest integer, a half upwards.
\<close>

definition Math_round :: "rat \<Rightarrow> int" where
  "Math_round x = \<lfloor>x + 1 / 2\<rfloor>"

text \<open>
  The decimal text of a number: the integer part, and for a number that is not an
  integer a point and the digits of the fraction (at most 17 of them). This is the text
  JavaScript prints for the numbers with a short decimal expansion between \<open>1e-6\<close> and
  \<open>1e21\<close>; \<open>NaN\<close> and the infinities are not numbers of the model.
\<close>

definition String_int :: "int \<Rightarrow> string" where
  "String_int i = (if i < 0 then CHR ''-'' # String_nat (nat (- i)) else String_nat (nat i))"

fun frac_digits :: "nat \<Rightarrow> rat \<Rightarrow> string" where
  "frac_digits 0 y = []"
| "frac_digits (Suc k) y =
     (if y = 0 then []
      else digit (nat \<lfloor>10 * y\<rfloor>) # frac_digits k (10 * y - of_int \<lfloor>10 * y\<rfloor>))"

definition String_num :: "rat \<Rightarrow> string" where
  "String_num x =
     (if x = of_int \<lfloor>x\<rfloor> then String_int \<lfloor>x\<rfloor>
      else (if x < 0 then ''-'' else '''') @ String_nat (nat \<lfloor>\<bar>x\<bar>\<rfloor>) @ ''.'' @
           frac_digits 17 (\<bar>x\<bar> - of_int \<lfloor>\<bar>x\<bar>\<rfloor>))"

text \<open>A string between double quotes, with the escapes of JSON.\<close>

definition escape_char :: "char \<Rightarrow> string" where
  "escape_char c =
     (if c = CHR 0x22 then [CHR 0x5C, CHR 0x22]
      else if c = CHR 0x5C then [CHR 0x5C, CHR 0x5C]
      else if c = CHR 0x08 then [CHR 0x5C, CHR ''b'']
      else if c = CHR 0x09 then [CHR 0x5C, CHR ''t'']
      else if c = CHR 0x0A then [CHR 0x5C, CHR ''n'']
      else if c = CHR 0x0C then [CHR 0x5C, CHR ''f'']
      else if c = CHR 0x0D then [CHR 0x5C, CHR ''r'']
      else if (of_char c :: nat) < 32
        then [CHR 0x5C, CHR ''u'', CHR ''0'', CHR ''0'', digit (of_char c div 16), digit (of_char c mod 16)]
      else [c])"

definition quote :: "string \<Rightarrow> string" where
  "quote s = CHR 0x22 # concat (map escape_char s) @ [CHR 0x22]"

fun join :: "string \<Rightarrow> string list \<Rightarrow> string" where
  "join sep [] = []"
| "join sep [x] = x"
| "join sep (x # y # ys) = x @ sep @ join sep (y # ys)"

text \<open>
  The text of a value inside an array or an object. \<open>undefined\<close> is written \<open>null\<close>
  inside an array, and a property whose value is \<open>undefined\<close> is left out of an object.
\<close>

fun serialize :: "jv \<Rightarrow> string" where
  "serialize JUndefined = ''null''"
| "serialize JNull = ''null''"
| "serialize (JBool b) = (if b then ''true'' else ''false'')"
| "serialize (JNum x) = String_num x"
| "serialize (JStr s) = quote s"
| "serialize (JArr xs) = ''['' @ join '','' (map serialize xs) @ '']''"
| "serialize (JObj kvs) =
     ''{'' @ join '','' (map (\<lambda>kv. quote (fst kv) @ '':'' @ serialize (snd kv))
                          (filter (\<lambda>kv. snd kv \<noteq> JUndefined) kvs)) @ ''}''"

text \<open>\<open>JSON.stringify(v)\<close>: \<open>None\<close> stands for the result \<open>undefined\<close>.\<close>

definition JSON_stringify :: "jv \<Rightarrow> string option" where
  "JSON_stringify v = (if v = JUndefined then None else Some (serialize v))"

subsection \<open>Objects\<close>

type_synonym jobj = "(string \<times> jv) list"

definition Object_keys :: "jobj \<Rightarrow> string list" where
  "Object_keys ob = map fst ob"

text \<open>Reading a property that is not there gives \<open>undefined\<close>.\<close>

definition obj_get :: "jobj \<Rightarrow> string \<Rightarrow> jv" where
  "obj_get ob k = (case map_of ob k of None \<Rightarrow> JUndefined | Some v \<Rightarrow> v)"

text \<open>Assigning a property: a new key goes last, an old key keeps its place.\<close>

definition obj_set :: "jobj \<Rightarrow> string \<Rightarrow> jv \<Rightarrow> jobj" where
  "obj_set ob k v = AList.update k v ob"

section \<open>The correlation bridge (\<open>PluginBridge\<close>)\<close>

text \<open>
  A socket is identified by a number. Its \<open>readyState\<close> belongs to the WebSocket library;
  the bridge only reads it, and calls \<open>close()\<close> on it, which moves an open socket to
  \<open>CLOSING\<close>.
\<close>

type_synonym ws = nat

datatype ready_state = CONNECTING | OPEN | CLOSING | CLOSED

datatype js_error = Error string

datatype outcome = Resolved jv | Rejected js_error

record forage_error =
  code :: string
  message :: string

record forage_response =
  resp_id :: string
  resp_result :: jv
  resp_error :: "forage_error option"

record forage_command =
  cmd_id :: string
  cmd_method :: string
  cmd_params :: jv

text \<open>
  \<open>PendingRequest\<close>: the \<open>resolve\<close> and \<open>reject\<close> callbacks of one promise, named here by
  the promise they settle, and the handle of the request's timer. The closure of a timer
  holds the \<open>id\<close>, the \<open>reject\<close> callback and the \<open>method\<close> it was created with.
\<close>

record pending_request =
  promise :: nat
  timer :: nat

record timer_closure =
  t_id :: string
  t_promise :: nat
  t_method :: string

text \<open>
  The state of a bridge: the fields of the class, the armed timers, the sockets that carry
  this bridge's handlers, the frames written to sockets, and the log of every call of a
  \<open>resolve\<close> or \<open>reject\<close> callback, in order.
\<close>

record bridge =
  plugin :: "ws option"
  pendingRequests :: "(string \<times> pending_request) list"
  nextId :: nat
  ready :: "ws \<Rightarrow> ready_state"
  handlers :: "ws list"
  timers :: "(nat \<times> timer_closure) list"
  settled :: "(nat \<times> outcome) list"
  outbox :: "(ws \<times> forage_command) list"

definition init :: bridge where
  "init = \<lparr> plugin = None, pendingRequests = [], nextId = 0, ready = (\<lambda>_. CONNECTING),
            handlers = [], timers = [], settled = [], outbox = [] \<rparr>"

definition clearTimeout :: "nat \<Rightarrow> bridge \<Rightarrow> bridge" where
  "clearTimeout t s = s\<lparr> timers := AList.delete t (timers s) \<rparr>"

definition call_resolve :: "nat \<Rightarrow> jv \<Rightarrow> bridge \<Rightarrow> bridge" where
  "call_resolve p v s = s\<lparr> settled := settled s @ [(p, Resolved v)] \<rparr>"

definition call_reject :: "nat \<Rightarrow> js_error \<Rightarrow> bridge \<Rightarrow> bridge" where
  "call_reject p e s = s\<lparr> settled := settled s @ [(p, Rejected e)] \<rparr>"

definition pending_delete :: "string \<Rightarrow> bridge \<Rightarrow> bridge" where
  "pending_delete k s = s\<lparr> pendingRequests := AList.delete k (pendingRequests s) \<rparr>"

text \<open>\<open>handleConnection\<close>: an open previous socket is closed, the new one becomes the plugin.\<close>

definition handleConnection :: "ws \<Rightarrow> bridge \<Rightarrow> bridge" where
  "handleConnection w s =
     (let s1 = (case plugin s of
                  Some p \<Rightarrow> if ready s p = OPEN then s\<lparr> ready := (ready s)(p := CLOSING) \<rparr> else s
                | None \<Rightarrow> s)
      in s1\<lparr> plugin := Some w, handlers := w # handlers s1 \<rparr>)"

text \<open>
  The \<open>message\<close> handler. The frame is given as parsed: \<open>None\<close> when \<open>JSON.parse\<close> (or
  reading the response) throws, which the handler catches and logs.
\<close>

definition on_message :: "forage_response option \<Rightarrow> bridge \<Rightarrow> bridge" where
  "on_message data s =
     (case data of
        None \<Rightarrow> s
      | Some response \<Rightarrow>
          (case map_of (pendingRequests s) (resp_id response) of
             None \<Rightarrow> s
           | Some pending \<Rightarrow>
               (let s1 = clearTimeout (timer pending) s;
                    s2 = pending_delete (resp_id response) s1
                in case resp_error response of
                     Some e \<Rightarrow>
                       call_reject (promise pending)
                         (Error (''['' @ code e @ ''] '' @ message e)) s2
                   | None \<Rightarrow> call_resolve (promise pending) (resp_result response) s2)))"

text \<open>
  The loop of the \<open>close\<close> handler over the entries of the map. Deleting the entry
  being visited does not disturb the iteration of a JavaScript \<open>Map\<close>, so the loop
  visits the entries the map held when it started.
\<close>

fun reject_loop :: "(string \<times> pending_request) list \<Rightarrow> bridge \<Rightarrow> bridge" where
  "reject_loop [] s = s"
| "reject_loop ((k, req) # rest) s =
     reject_loop rest
       (pending_delete k
          (call_reject (promise req) (Error ''Figma plugin disconnected'')
             (clearTimeout (timer req) s)))"

definition on_close :: "ws \<Rightarrow> bridge \<Rightarrow> bridge" where
  "on_close w s =
     (let s1 = (if plugin s = Some w then s\<lparr> plugin := None \<rparr> else s)
      in reject_loop (pendingRequests s1) s1)"

text \<open>The \<open>error\<close> handler writes a log line and nothing else.\<close>

definition on_error :: "ws \<Rightarrow> string \<Rightarrow> bridge \<Rightarrow> bridge" where
  "on_error w err s = s"

text \<open>The callback of a timer. A timer that is not armed (never set, cleared, or fired) does not fire.\<close>

definition on_timeout :: "nat \<Rightarrow> bridge \<Rightarrow> bridge" where
  "on_timeout t s =
     (case map_of (timers s) t of
        None \<Rightarrow> s
      | Some c \<Rightarrow>
          call_reject (t_promise c) (Error (''Request timed out after 10s: '' @ t_method c))
            (pending_delete (t_id c) (clearTimeout t s)))"

definition connected_bridge :: "bridge \<Rightarrow> bool" where
  "connected_bridge s = (case plugin s of None \<Rightarrow> False | Some p \<Rightarrow> ready s p = OPEN)"

text \<open>
  \<open>send\<close>: the result is the error thrown, or the promise returned (the number of the
  request, which also names its timer), together with the state after the call. The
  counter \<open>nextId\<close> is a JavaScript number, exact up to \<open>2\<^sup>5\<^sup>3\<close>; it is a natural number
  here. The parameters are JSON data, so writing the command does not throw.
\<close>

definition send :: "string \<Rightarrow> jv \<Rightarrow> bridge \<Rightarrow> (js_error + nat) \<times> bridge" where
  "send method params s =
     (case plugin s of
        None \<Rightarrow> (Inl (Error ''Not connected to Figma plugin. Is the Forage plugin running in Figma?''), s)
      | Some p \<Rightarrow>
          if ready s p \<noteq> OPEN
          then (Inl (Error ''Not connected to Figma plugin. Is the Forage plugin running in Figma?''), s)
          else
            (let n = nextId s + 1;
                 k = String_nat n;
                 command = \<lparr> cmd_id = k, cmd_method = method, cmd_params = params \<rparr>;
                 s1 = s\<lparr> nextId := n \<rparr>;
                 s2 = s1\<lparr> timers := AList.update n \<lparr> t_id = k, t_promise = n, t_method = method \<rparr> (timers s1) \<rparr>;
                 s3 = s2\<lparr> pendingRequests := AList.update k \<lparr> promise = n, timer = n \<rparr> (pendingRequests s2) \<rparr>
             in (Inr n, s3\<lparr> outbox := outbox s3 @ [(p, command)] \<rparr>)))"

text \<open>\<open>close()\<close> of the bridge: every pending timer is cleared and the map is emptied.\<close>

definition close :: "bridge \<Rightarrow> bridge" where
  "close s = (fold (\<lambda>(k, req). clearTimeout (timer req)) (pendingRequests s) s)\<lparr> pendingRequests := [] \<rparr>"

text \<open>
  What can happen to a bridge. A \<open>connection\<close> event brings a fresh, open socket; the
  library sets a socket to \<open>CLOSED\<close> before it emits \<open>close\<close>; \<open>message\<close>, \<open>close\<close> and
  \<open>error\<close> reach the bridge only from sockets it has put its handlers on.
\<close>

datatype event =
    Connection ws
  | Message ws "forage_response option"
  | Close ws
  | SocketError ws string
  | Timeout nat
  | Send string jv
  | BridgeClose

definition step :: "event \<Rightarrow> bridge \<Rightarrow> bridge" where
  "step e s =
     (case e of
        Connection w \<Rightarrow>
          if w \<in> set (handlers s) then s
          else handleConnection w (s\<lparr> ready := (ready s)(w := OPEN) \<rparr>)
      | Message w data \<Rightarrow> if w \<in> set (handlers s) then on_message data s else s
      | Close w \<Rightarrow>
          if w \<in> set (handlers s) then on_close w (s\<lparr> ready := (ready s)(w := CLOSED) \<rparr>) else s
      | SocketError w err \<Rightarrow> if w \<in> set (handlers s) then on_error w err s else s
      | Timeout t \<Rightarrow> on_timeout t s
      | Send method params \<Rightarrow> snd (send method params s)
      | BridgeClose \<Rightarrow> close s)"

definition run :: "event list \<Rightarrow> bridge \<Rightarrow> bridge" where
  "run es s = fold step es s"

text \<open>How often a callback of promise \<open>p\<close> has been called.\<close>

definition fires :: "nat \<Rightarrow> bridge \<Rightarrow> nat" where
  "fires p s = count_list (map fst (settled s)) p"

text \<open>
  The invariant of the bridge's bookkeeping: the keys of the map are distinct; no promise
  has been settled twice; an entry of the map is filed under the \<open>String\<close> of its request
  number, its timer is armed and its promise is not settled yet; an armed timer belongs to
  the entry filed under its \<open>id\<close>; and only requests that were sent have been settled.
\<close>

definition bridge_inv :: "bridge \<Rightarrow> bool" where
  "bridge_inv s \<longleftrightarrow>
     distinct (map fst (pendingRequests s)) \<and>
     distinct (map fst (settled s)) \<and>
     (\<forall>k req. map_of (pendingRequests s) k = Some req \<longrightarrow>
        k = String_nat (promise req) \<and> timer req = promise req \<and>
        0 < promise req \<and> promise req \<le> nextId s \<and>
        (\<exists>m. map_of (timers s) (timer req) = Some \<lparr> t_id = k, t_promise = promise req, t_method = m \<rparr>) \<and>
        promise req \<notin> fst ` set (settled s)) \<and>
     (\<forall>t c. map_of (timers s) t = Some c \<longrightarrow>
        map_of (pendingRequests s) (t_id c) = Some \<lparr> promise = t_promise c, timer = t \<rparr>) \<and>
     (\<forall>p \<in> fst ` set (settled s). 0 < p \<and> p \<le> nextId s)"

text \<open>
  A request has reached its end in state \<open>s\<close>: its entry is gone from the map, its timer is
  no longer armed, and exactly one call of its \<open>resolve\<close> or \<open>reject\<close> is on record.
\<close>

definition terminated :: "string \<Rightarrow> pending_request \<Rightarrow> bridge \<Rightarrow> bool" where
  "terminated k req s \<longleftrightarrow>
     map_of (pendingRequests s) k = None \<and> map_of (timers s) (timer req) = None \<and>
     fires (promise req) s = 1"

definition disconnected :: "outcome" where
  "disconnected = Rejected (Error ''Figma plugin disconnected'')"

section \<open>Scene nodes\<close>

text \<open>
  A raw node of the document, as far as the plugin reads it. A property a node kind does
  not have (\<open>"width" in node\<close> is false) is \<open>None\<close>; a property that can hold the
  \<open>figma.mixed\<close> symbol is an \<open>or_mixed\<close>.
\<close>

datatype 'a or_mixed = Mixed | Single 'a

record rgba =
  col_r :: rat
  col_g :: rat
  col_b :: rat
  col_a :: "rat option"

record color_stop =
  stop_color :: rgba
  stop_position :: rat

record paint =
  paint_type :: string
  paint_visible :: "bool option"
  paint_color :: rgba
  paint_opacity :: "rat option"
  gradientStops :: "color_stop list"

record effect =
  effect_type :: string
  effect_visible :: bool
  effect_radius :: "rat option"
  effect_shadow :: "((rat \<times> rat) \<times> rgba) option"
  effect_spread :: "rat option"

record frame_layout =
  layoutMode :: string
  primaryAxisAlignItems :: string
  counterAxisAlignItems :: string
  paddingLeft :: rat
  paddingRight :: rat
  paddingTop :: rat
  paddingBottom :: rat
  itemSpacing :: rat
  counterAxisSpacing :: "rat option"

record layout_child =
  layoutAlign :: string
  layoutGrow :: rat

record corner =
  cornerRadius :: "rat or_mixed"
  topLeftRadius :: "rat option"
  topRightRadius :: "rat option"
  bottomRightRadius :: "rat option"
  bottomLeftRadius :: "rat option"

record text_attrs =
  characters :: string
  fontSize :: "rat or_mixed"
  fontName :: "jv or_mixed"
  fontWeight :: "rat or_mixed"
  lineHeight :: "jv or_mixed"
  letterSpacing :: "jv or_mixed"
  textAlignHorizontal :: string
  textAlignVertical :: string

text \<open>
  A prototype reaction: its trigger's type, when it has a trigger, and its actions, when
  it has any; an action has a type and may have a \<open>destinationId\<close>, which is a string
  or \<open>null\<close>.
\<close>

record action =
  action_type :: string
  destinationId :: "string option option"

record reaction =
  trigger :: "string option"
  actions :: "action list option"

record scene_attrs =
  node_id :: string
  node_name :: string
  node_type :: string
  visible :: bool
  width :: "rat option"
  height :: "rat option"
  layout :: "frame_layout option"
  layoutChild :: "layout_child option"
  mainComponent :: "string option"
  variantProperties :: "(string \<times> string) list option"
  componentPropertyDefinitions :: "jobj option"
  fills :: "paint list or_mixed option"
  strokes :: "paint list option"
  effects :: "effect list option"
  opacity :: "rat option"
  corners :: "corner option"
  text_props :: "text_attrs option"
  reactions :: "reaction list option"
  sharedPluginData :: string

datatype raw_node = RawNode (attrs: scene_attrs) (children: "raw_node list option")

section \<open>The node projector (\<open>simplifyNode\<close>)\<close>

fun hex_nat :: "nat \<Rightarrow> string" where
  "hex_nat n = (if n < 16 then [digit n] else hex_nat (n div 16) @ [digit (n mod 16)])"

declare hex_nat.simps [simp del]

text \<open>\<open>n.toString(16).padStart(2, "0")\<close> for an integer \<open>n\<close>.\<close>

definition hex2 :: "int \<Rightarrow> string" where
  "hex2 i =
     (let s = (if i < 0 then CHR ''-'' # hex_nat (nat (- i)) else hex_nat (nat i))
      in replicate (2 - length s) CHR ''0'' @ s)"

definition rgbToHex :: "rgba \<Rightarrow> string" where
  "rgbToHex color =
     (let r = Math_round (col_r color * 255);
          g = Math_round (col_g color * 255);
          b = Math_round (col_b color * 255);
          hex = ''#'' @ hex2 r @ hex2 g @ hex2 b
      in case col_a color of
           Some a \<Rightarrow> if a < 1 then hex @ hex2 (Math_round (a * 255)) else hex
         | None \<Rightarrow> hex)"

definition simplifyPaint :: "paint \<Rightarrow> jobj" where
  "simplifyPaint paint =
     (let p = [(''type'', JStr (paint_type paint))];
          p1 = (if paint_type paint = ''SOLID''
                then (let q = obj_set p ''color'' (JStr (rgbToHex (paint_color paint)))
                      in case paint_opacity paint of
                           Some op \<Rightarrow> if op \<noteq> 1 then obj_set q ''opacity'' (JNum op) else q
                         | None \<Rightarrow> q)
                else p)
      in if paint_type paint = ''GRADIENT_LINEAR'' \<or> paint_type paint = ''GRADIENT_RADIAL''
         then obj_set p1 ''gradientStops''
                (JArr (map (\<lambda>s. JObj [(''color'', JStr (rgbToHex (stop_color s))),
                                        (''position'', JNum (stop_position s))])
                           (gradientStops paint)))
         else p1)"

definition simplifyEffect :: "effect \<Rightarrow> jobj" where
  "simplifyEffect effect =
     (let e = [(''type'', JStr (effect_type effect))];
          e1 = (case effect_radius effect of Some r \<Rightarrow> obj_set e ''radius'' (JNum r) | None \<Rightarrow> e);
          e2 = (case effect_shadow effect of
                  Some ((x, y), c) \<Rightarrow>
                    obj_set (obj_set e1 ''offset'' (JObj [(''x'', JNum x), (''y'', JNum y)]))
                      ''color'' (JStr (rgbToHex c))
                | None \<Rightarrow> e1)
      in case effect_spread effect of Some sp \<Rightarrow> obj_set e2 ''spread'' (JNum sp) | None \<Rightarrow> e2)"

text \<open>The blocks of \<open>simplifyNode\<close>, in the order of the source; each takes the object built so far.\<close>

definition simplify_size :: "scene_attrs \<Rightarrow> jobj \<Rightarrow> jobj" where
  "simplify_size node simplified =
     (let s1 = (if \<not> visible node then obj_set simplified ''visible'' (JBool False) else simplified);
          s2 = (case width node of Some w \<Rightarrow> obj_set s1 ''width'' (JNum (of_int (Math_round w))) | None \<Rightarrow> s1)
      in case height node of Some h \<Rightarrow> obj_set s2 ''height'' (JNum (of_int (Math_round h))) | None \<Rightarrow> s2)"

definition simplify_layout :: "scene_attrs \<Rightarrow> jobj \<Rightarrow> jobj" where
  "simplify_layout node simplified =
     (case layout node of
        None \<Rightarrow> simplified
      | Some frame \<Rightarrow>
          if layoutMode frame \<noteq> ''NONE''
          then (let s1 = obj_set simplified ''layoutMode'' (JStr (layoutMode frame));
                    s2 = obj_set s1 ''primaryAxisAlignItems'' (JStr (primaryAxisAlignItems frame));
                    s3 = obj_set s2 ''counterAxisAlignItems'' (JStr (counterAxisAlignItems frame));
                    s4 = obj_set s3 ''paddingLeft'' (JNum (paddingLeft frame));
                    s5 = obj_set s4 ''paddingRight'' (JNum (paddingRight frame));
                    s6 = obj_set s5 ''paddingTop'' (JNum (paddingTop frame));
                    s7 = obj_set s6 ''paddingBottom'' (JNum (paddingBottom frame));
                    s8 = obj_set s7 ''itemSpacing'' (JNum (itemSpacing frame))
                in case counterAxisSpacing frame of
                     Some c \<Rightarrow> obj_set s8 ''counterAxisSpacing'' (JNum c)
                   | None \<Rightarrow> s8)
          else simplified)"

definition simplify_layout_child :: "scene_attrs \<Rightarrow> jobj \<Rightarrow> jobj" where
  "simplify_layout_child node simplified =
     (case layoutChild node of
        None \<Rightarrow> simplified
      | Some child \<Rightarrow>
          (let s1 = (if layoutAlign child \<noteq> ''INHERIT''
                     then obj_set simplified ''layoutAlign'' (JStr (layoutAlign child)) else simplified)
           in if layoutGrow child \<noteq> 0 then obj_set s1 ''layoutGrow'' (JNum (layoutGrow child)) else s1))"

definition simplify_component :: "scene_attrs \<Rightarrow> jobj \<Rightarrow> jobj" where
  "simplify_component node simplified =
     (let s1 = (if node_type node = ''COMPONENT'' then obj_set simplified ''isComponent'' (JBool True) else simplified);
          s2 = (if node_type node = ''COMPONENT_SET'' then obj_set s1 ''isComponentSet'' (JBool True) else s1);
          s3 = (if node_type node = ''INSTANCE''
                then obj_set (obj_set s2 ''isInstance'' (JBool True)) ''mainComponentId''
                       (case mainComponent node of Some i \<Rightarrow> JStr i | None \<Rightarrow> JUndefined)
                else s2);
          s4 = (case variantProperties node of
                  Some vp \<Rightarrow> obj_set s3 ''variantProperties'' (JObj (map (\<lambda>kv. (fst kv, JStr (snd kv))) vp))
                | None \<Rightarrow> s3)
      in case componentPropertyDefinitions node of
           Some defs \<Rightarrow> if length (Object_keys defs) > 0 then obj_set s4 ''componentProperties'' (JObj defs) else s4
         | None \<Rightarrow> s4)"

definition simplify_paints :: "scene_attrs \<Rightarrow> jobj \<Rightarrow> jobj" where
  "simplify_paints node simplified =
     (let s1 = (case fills node of
                  Some (Single fs) \<Rightarrow>
                    (let vis = filter (\<lambda>f. paint_visible f \<noteq> Some False) fs
                     in if length vis > 0 then obj_set simplified ''fills'' (JArr (map (\<lambda>f. JObj (simplifyPaint f)) vis))
                        else simplified)
                | _ \<Rightarrow> simplified);
          s2 = (case strokes node of
                  Some ss \<Rightarrow>
                    (let vis = filter (\<lambda>f. paint_visible f \<noteq> Some False) ss
                     in if length vis > 0 then obj_set s1 ''strokes'' (JArr (map (\<lambda>f. JObj (simplifyPaint f)) vis))
                        else s1)
                | None \<Rightarrow> s1);
          s3 = (case effects node of
                  Some es \<Rightarrow>
                    (let vis = filter (\<lambda>e. effect_visible e \<noteq> False) es
                     in if length vis > 0 then obj_set s2 ''effects'' (JArr (map (\<lambda>e. JObj (simplifyEffect e)) vis))
                        else s2)
                | None \<Rightarrow> s2)
      in case opacity node of
           Some op \<Rightarrow> if op \<noteq> 1 then obj_set s3 ''opacity'' (JNum op) else s3
         | None \<Rightarrow> s3)"

text \<open>A radius inside the template string: \<open>undefined\<close> prints as the word.\<close>

definition radius_text :: "rat option \<Rightarrow> string" where
  "radius_text r = (case r of Some x \<Rightarrow> String_num x | None \<Rightarrow> ''undefined'')"

definition simplify_corner :: "scene_attrs \<Rightarrow> jobj \<Rightarrow> jobj" where
  "simplify_corner node simplified =
     (case corners node of
        None \<Rightarrow> simplified
      | Some r \<Rightarrow>
          (case cornerRadius r of
             Single x \<Rightarrow> if x > 0 then obj_set simplified ''cornerRadius'' (JNum x) else simplified
           | Mixed \<Rightarrow>
               obj_set simplified ''borderRadius''
                 (JStr (radius_text (topLeftRadius r) @ '' '' @ radius_text (topRightRadius r) @ '' '' @
                        radius_text (bottomRightRadius r) @ '' '' @ radius_text (bottomLeftRadius r)))))"

text \<open>
  The text block reads the text properties of the node. On a node that has none of them
  every read gives \<open>undefined\<close>, which is not a number and is not \<open>figma.mixed\<close>.
\<close>

definition simplify_text :: "scene_attrs \<Rightarrow> jobj \<Rightarrow> jobj" where
  "simplify_text node simplified =
     (if node_type node = ''TEXT''
      then (case text_props node of
              Some t \<Rightarrow>
                (let s1 = obj_set simplified ''textContent'' (JStr (characters t));
                     s2 = (case fontSize t of Single x \<Rightarrow> obj_set s1 ''fontSize'' (JNum x) | Mixed \<Rightarrow> s1);
                     s3 = (case fontName t of Single v \<Rightarrow> obj_set s2 ''fontName'' v | Mixed \<Rightarrow> s2);
                     s4 = (case fontWeight t of Single x \<Rightarrow> obj_set s3 ''fontWeight'' (JNum x) | Mixed \<Rightarrow> s3);
                     s5 = (case lineHeight t of Single v \<Rightarrow> obj_set s4 ''lineHeight'' v | Mixed \<Rightarrow> s4);
                     s6 = (case letterSpacing t of Single v \<Rightarrow> obj_set s5 ''letterSpacing'' v | Mixed \<Rightarrow> s5);
                     s7 = obj_set s6 ''textAlignHorizontal'' (JStr (textAlignHorizontal t))
                 in obj_set s7 ''textAlignVertical'' (JStr (textAlignVertical t)))
            | None \<Rightarrow>
                (let s1 = obj_set simplified ''textContent'' JUndefined;
                     s3 = obj_set s1 ''fontName'' JUndefined;
                     s5 = obj_set s3 ''lineHeight'' JUndefined;
                     s6 = obj_set s5 ''letterSpacing'' JUndefined;
                     s7 = obj_set s6 ''textAlignHorizontal'' JUndefined
                 in obj_set s7 ''textAlignVertical'' JUndefined))
      else simplified)"

fun simplifyNode :: "raw_node \<Rightarrow> bool \<Rightarrow> jobj" where
  "simplifyNode (RawNode node kids) includeChildren =
     (let s0 = [(''id'', JStr (node_id node)), (''name'', JStr (node_name node)), (''type'', JStr (node_type node))];
          s1 = simplify_size node s0;
          s2 = (case kids of
                  None \<Rightarrow> s1
                | Some cs \<Rightarrow>
                    (let s = obj_set s1 ''childCount'' (JNum (of_nat (length cs)))
                     in if includeChildren
                        then obj_set s ''children'' (JArr (map (\<lambda>c. JObj (simplifyNode c False)) cs))
                        else s));
          s3 = simplify_layout node s2;
          s4 = simplify_layout_child node s3;
          s5 = simplify_component node s4;
          s6 = simplify_paints node s5;
          s7 = simplify_corner node s6
      in simplify_text node s7)"


section \<open>The document and the lookup of a node\<close>

record page_node =
  page_id :: string
  page_name :: string
  page_children :: "raw_node list"

datatype base_node = DocumentNode | PageNode page_node | SceneNode raw_node

text \<open>The part of the \<open>figma\<close> API the handlers use.\<close>

record figma_api =
  getNodeById :: "string \<Rightarrow> base_node option"
  currentPage :: page_node

text \<open>An error thrown by a handler: \<open>{ code, message }\<close>.\<close>

datatype plugin_error = PluginError string string

definition findNodeById :: "figma_api \<Rightarrow> string \<Rightarrow> plugin_error + raw_node" where
  "findNodeById figma nodeId =
     (case getNodeById figma nodeId of
        Some (SceneNode node) \<Rightarrow> Inr node
      | _ \<Rightarrow> Inl (PluginError ''NODE_NOT_FOUND'' (''Node not found: '' @ nodeId)))"

section \<open>The tree navigator (\<open>handleGetChildren\<close>)\<close>

fun getChildrenAtDepth :: "raw_node \<Rightarrow> rat \<Rightarrow> jobj" where
  "getChildrenAtDepth (RawNode node kids) d =
     (let simplified = simplifyNode (RawNode node kids) False
      in case kids of
           Some ch \<Rightarrow>
             if d > 0
             then obj_set simplified ''children'' (JArr (map (\<lambda>c. JObj (getChildrenAtDepth c (d - 1))) ch))
             else simplified
         | None \<Rightarrow> simplified)"

definition handleGetChildren :: "figma_api \<Rightarrow> string \<Rightarrow> rat option \<Rightarrow> plugin_error + jobj" where
  "handleGetChildren figma nodeId depth_param =
     (case findNodeById figma nodeId of
        Inl e \<Rightarrow> Inl e
      | Inr node \<Rightarrow>
          (case children node of
             None \<Rightarrow>
               Inr [(''id'', JStr (node_id (attrs node))), (''name'', JStr (node_name (attrs node))),
                    (''type'', JStr (node_type (attrs node))), (''children'', JArr [])]
           | Some ch \<Rightarrow>
               (let depth = (case depth_param of Some d \<Rightarrow> d | None \<Rightarrow> 1)
                in Inr [(''id'', JStr (node_id (attrs node))), (''name'', JStr (node_name (attrs node))),
                        (''type'', JStr (node_type (attrs node))),
                        (''children'', JArr (map (\<lambda>c. JObj (getChildrenAtDepth c (depth - 1))) ch))])))"

section \<open>The variant differ (\<open>handleCompareVariants\<close>)\<close>

text \<open>\<open>new Set(xs)\<close>: the elements of \<open>xs\<close> in the order of their first occurrence.\<close>

definition Set_from :: "'a list \<Rightarrow> 'a list" where
  "Set_from xs = fold (\<lambda>x s. if x \<in> set s then s else s @ [x]) xs []"

fun compare_loop :: "string list \<Rightarrow> jobj \<Rightarrow> jobj \<Rightarrow> jobj \<Rightarrow> jobj" where
  "compare_loop [] simplifiedA simplifiedB differences = differences"
| "compare_loop (key # rest) simplifiedA simplifiedB differences =
     (let valA = obj_get simplifiedA key;
          valB = obj_get simplifiedB key
      in compare_loop rest simplifiedA simplifiedB
           (if JSON_stringify valA \<noteq> JSON_stringify valB
            then obj_set differences key (JObj [(''a'', valA), (''b'', valB)])
            else differences))"

record compare_result =
  nodeA :: "string \<times> string"
  nodeB :: "string \<times> string"
  differences :: jobj
  differenceCount :: nat

definition handleCompareVariants :: "figma_api \<Rightarrow> string \<Rightarrow> string \<Rightarrow> plugin_error + compare_result" where
  "handleCompareVariants figma nodeIdA nodeIdB =
     (case findNodeById figma nodeIdA of
        Inl e \<Rightarrow> Inl e
      | Inr nA \<Rightarrow>
          (case findNodeById figma nodeIdB of
             Inl e \<Rightarrow> Inl e
           | Inr nB \<Rightarrow>
               (let simplifiedA = simplifyNode nA True;
                    simplifiedB = simplifyNode nB True;
                    allKeys = Set_from (Object_keys simplifiedA @ Object_keys simplifiedB);
                    diffs = compare_loop allKeys simplifiedA simplifiedB []
                in Inr \<lparr> nodeA = (node_id (attrs nA), node_name (attrs nA)),
                         nodeB = (node_id (attrs nB), node_name (attrs nB)),
                         differences = diffs,
                         differenceCount = length (Object_keys diffs) \<rparr>)))"

section \<open>The similarity scorer (\<open>handleFindSimilar\<close>)\<close>

definition skip :: "string list" where
  "skip = [''id'', ''name'', ''children'']"

text \<open>The loop of \<open>computeSimilarity\<close>, with the counters \<open>matches\<close> and \<open>total\<close> (\<open>total_n\<close> here).\<close>

fun similarity_loop :: "string list \<Rightarrow> jobj \<Rightarrow> jobj \<Rightarrow> nat \<times> nat \<Rightarrow> nat \<times> nat" where
  "similarity_loop [] a b (matches, total_n) = (matches, total_n)"
| "similarity_loop (key # rest) a b (matches, total_n) =
     (if key \<in> set skip then similarity_loop rest a b (matches, total_n)
      else similarity_loop rest a b
             (if JSON_stringify (obj_get a key) = JSON_stringify (obj_get b key) then matches + 1 else matches,
              total_n + 1))"

definition computeSimilarity :: "jobj \<Rightarrow> jobj \<Rightarrow> rat" where
  "computeSimilarity a b =
     (let keys = Set_from (Object_keys a @ Object_keys b);
          (matches, total_n) = similarity_loop keys a b (0, 0)
      in if total_n > 0 then of_nat matches / of_nat total_n else 0)"

text \<open>\<open>page.findAll\<close> visits every node below the page, a parent before its children.\<close>

fun descendants :: "raw_node \<Rightarrow> raw_node list" where
  "descendants (RawNode node kids) =
     RawNode node kids # (case kids of None \<Rightarrow> [] | Some cs \<Rightarrow> concat (map descendants cs))"

definition findAll :: "page_node \<Rightarrow> (raw_node \<Rightarrow> bool) \<Rightarrow> raw_node list" where
  "findAll page pred = filter pred (concat (map descendants (page_children page)))"

record similar_entry =
  sim_node :: jobj
  similarity :: rat

record similar_result =
  sim_target :: "string \<times> string \<times> string"
  similar :: "similar_entry list"
  sim_total :: nat

fun similar_loop :: "raw_node list \<Rightarrow> jobj \<Rightarrow> rat \<Rightarrow> similar_entry list \<Rightarrow> similar_entry list" where
  "similar_loop [] target threshold found = found"
| "similar_loop (candidate # rest) target threshold found =
     (let simplified = simplifyNode candidate False;
          sim = computeSimilarity target simplified
      in similar_loop rest target threshold
           (if sim \<ge> threshold
            then found @ [\<lparr> sim_node = simplified, similarity = of_int (Math_round (sim * 100)) / 100 \<rparr>]
            else found))"

definition handleFindSimilar :: "figma_api \<Rightarrow> string \<Rightarrow> rat option \<Rightarrow> plugin_error + similar_result" where
  "handleFindSimilar figma nodeId threshold_param =
     (case findNodeById figma nodeId of
        Inl e \<Rightarrow> Inl e
      | Inr targetNode \<Rightarrow>
          (let target = simplifyNode targetNode False;
               candidates = findAll (currentPage figma)
                  (\<lambda>n. node_type (attrs n) = node_type (attrs targetNode) \<and>
                       node_id (attrs n) \<noteq> node_id (attrs targetNode));
               found = similar_loop candidates target
                  (case threshold_param of Some t \<Rightarrow> t | None \<Rightarrow> 7 / 10) [];
               ranked = sort_key (\<lambda>e. - similarity e) found
           in Inr \<lparr> sim_target = (node_id (attrs targetNode), node_name (attrs targetNode), node_type (attrs targetNode)),
                    similar = take 20 ranked,
                    sim_total = length ranked \<rparr>))"


section \<open>The state inference engine (\<open>handleInferStates\<close>)\<close>

subsection \<open>String functions\<close>

text \<open>
  \<open>s.split(sep)\<close> for a separator that is not empty: the pieces of \<open>s\<close> between the
  occurrences of \<open>sep\<close>, found from the left. \<open>cur\<close> is the piece being read.
\<close>

function split_from :: "string \<Rightarrow> string \<Rightarrow> string \<Rightarrow> string list" where
  "split_from sep cur [] = [cur]"
| "split_from sep cur (c # cs) =
     (if sep \<noteq> [] \<and> take (length sep) (c # cs) = sep
      then cur # split_from sep [] (drop (length sep) (c # cs))
      else split_from sep (cur @ [c]) cs)"
  by pat_completeness auto
termination
  by (relation "measure (\<lambda>(sep, cur, s). length s)") auto

definition split :: "string \<Rightarrow> string \<Rightarrow> string list" where
  "split s sep = split_from sep [] s"

definition is_space :: "char \<Rightarrow> bool" where
  "is_space c \<longleftrightarrow> c \<in> {CHR '' '', CHR 0x09, CHR 0x0A, CHR 0x0B, CHR 0x0C, CHR 0x0D}"

definition trim :: "string \<Rightarrow> string" where
  "trim s = rev (dropWhile is_space (rev (dropWhile is_space s)))"

definition lower_char :: "char \<Rightarrow> char" where
  "lower_char c =
     (case map_of (zip ''ABCDEFGHIJKLMNOPQRSTUVWXYZ'' ''abcdefghijklmnopqrstuvwxyz'') c of
        Some l \<Rightarrow> l
      | None \<Rightarrow> c)"

definition toLowerCase :: "string \<Rightarrow> string" where
  "toLowerCase s = map lower_char s"

subsection \<open>Source 1: variant names\<close>

text \<open>The inner loop over the \<open>key=value\<close> pairs of one variant name.\<close>

fun pairs_loop :: "string list \<Rightarrow> string list \<Rightarrow> string list" where
  "pairs_loop [] states = states"
| "pairs_loop (pair # rest) states =
     (case split pair ''='' of
        _ # v # _ \<Rightarrow>
          if v \<noteq> []
          then (let normalized = trim v
                in pairs_loop rest (if normalized \<in> set states then states else states @ [normalized]))
          else pairs_loop rest states
      | _ \<Rightarrow> pairs_loop rest states)"

fun variants_loop :: "raw_node list \<Rightarrow> string list \<Rightarrow> string list" where
  "variants_loop [] states = states"
| "variants_loop (variant # rest) states =
     (if node_type (attrs variant) = ''COMPONENT''
      then variants_loop rest (pairs_loop (split (node_name (attrs variant)) '', '') states)
      else variants_loop rest states)"

definition interactionStates :: "string list" where
  "interactionStates = [''Default'', ''Hover'', ''Active'', ''Pressed'', ''Focus'', ''Disabled'']"

definition transition :: "string \<Rightarrow> string \<Rightarrow> string \<Rightarrow> jv" where
  "transition f t tr = JObj [(''from'', JStr f), (''to'', JStr t), (''trigger'', JStr tr)]"

text \<open>\<open>foundInteraction.find(s => s.toLowerCase() === w)\<close> is truthy.\<close>

definition found :: "string list \<Rightarrow> string \<Rightarrow> bool" where
  "found foundInteraction w \<longleftrightarrow>
     (case List.find (\<lambda>s. toLowerCase s = w) foundInteraction of Some s \<Rightarrow> s \<noteq> [] | None \<Rightarrow> False)"

definition found_either :: "string list \<Rightarrow> string \<Rightarrow> string \<Rightarrow> bool" where
  "found_either foundInteraction w1 w2 \<longleftrightarrow>
     (case List.find (\<lambda>s. toLowerCase s = w1 \<or> toLowerCase s = w2) foundInteraction of
        Some s \<Rightarrow> s \<noteq> [] | None \<Rightarrow> False)"

definition infer_transitions :: "string list \<Rightarrow> jv list" where
  "infer_transitions states =
     (let foundInteraction =
            filter (\<lambda>s. list_ex (\<lambda>i. toLowerCase s = toLowerCase i) interactionStates) states
      in if length foundInteraction > 1
         then (let t1 = (if found foundInteraction ''default'' \<and> found foundInteraction ''hover''
                         then [transition ''Default'' ''Hover'' ''ON_HOVER'',
                               transition ''Hover'' ''Default'' ''MOUSE_LEAVE'']
                         else []);
                   t2 = (if found foundInteraction ''hover'' \<and> found_either foundInteraction ''active'' ''pressed''
                         then t1 @ [transition ''Hover'' ''Active'' ''ON_CLICK'',
                                    transition ''Active'' ''Hover'' ''MOUSE_UP'']
                         else t1)
               in if found foundInteraction ''focus''
                  then t2 @ [transition ''Default'' ''Focus'' ''ON_FOCUS'',
                             transition ''Focus'' ''Default'' ''ON_BLUR'']
                  else t2)
         else [])"

subsection \<open>Source 2: prototype reactions\<close>

definition action_transition :: "string \<Rightarrow> string \<Rightarrow> action \<Rightarrow> jv" where
  "action_transition nm trig act =
     JObj [(''from'', JStr nm),
           (''to'', JStr (case destinationId act of
                           None \<Rightarrow> ''unknown''
                         | Some None \<Rightarrow> ''null''
                         | Some (Some d) \<Rightarrow> d)),
           (''trigger'', JStr trig),
           (''action'', JStr (action_type act))]"

fun reactions_loop :: "string \<Rightarrow> reaction list \<Rightarrow> jv list \<Rightarrow> jv list" where
  "reactions_loop nm [] transitions = transitions"
| "reactions_loop nm (r # rest) transitions =
     (case (trigger r, actions r) of
        (Some trig, Some acts) \<Rightarrow> reactions_loop nm rest (transitions @ map (action_transition nm trig) acts)
      | _ \<Rightarrow> reactions_loop nm rest transitions)"

subsection \<open>Source 3: the persisted annotation\<close>

text \<open>Truthiness, the values a \<open>for ... of\<close> or a spread runs over, and \<open>Array.prototype.includes\<close>.\<close>

definition truthy :: "jv \<Rightarrow> bool" where
  "truthy v \<longleftrightarrow> v \<noteq> JUndefined \<and> v \<noteq> JNull \<and> v \<noteq> JBool False \<and> v \<noteq> JNum 0 \<and> v \<noteq> JStr []"

definition iterate :: "jv \<Rightarrow> jv list option" where
  "iterate v = (case v of JArr xs \<Rightarrow> Some xs | JStr s \<Rightarrow> Some (map (\<lambda>c. JStr [c]) s) | _ \<Rightarrow> None)"

text \<open>Two objects read from different places of a parsed text are never the same object.\<close>

definition same_value_zero :: "jv \<Rightarrow> jv \<Rightarrow> bool" where
  "same_value_zero x y \<longleftrightarrow> (case x of JArr _ \<Rightarrow> False | JObj _ \<Rightarrow> False | _ \<Rightarrow> x = y)"

definition Array_includes :: "jv list \<Rightarrow> jv \<Rightarrow> bool" where
  "Array_includes xs x \<longleftrightarrow> list_ex (same_value_zero x) xs"

fun union_loop :: "jv list \<Rightarrow> jv list \<Rightarrow> jv list" where
  "union_loop [] states = states"
| "union_loop (s # rest) states = union_loop rest (if Array_includes states s then states else states @ [s])"

text \<open>
  The body of the \<open>try\<close> block, on the three arrays it changes. \<open>JSON.parse\<close> is a
  parameter: \<open>None\<close> is a text it throws on. Whatever throws inside the block ends the
  block with the arrays as they are at that point.
\<close>

definition annotation_source ::
  "(string \<Rightarrow> jv option) \<Rightarrow> string \<Rightarrow> jv list \<times> jv list \<times> string list \<Rightarrow> jv list \<times> jv list \<times> string list" where
  "annotation_source JSON_parse annotation acc =
     (case acc of (states, transitions, sources) \<Rightarrow>
        if annotation = [] then (states, transitions, sources)
        else (let sources1 = sources @ [''annotations'']
              in case JSON_parse annotation of
                   None \<Rightarrow> (states, transitions, sources1)
                 | Some JNull \<Rightarrow> (states, transitions, sources1)
                 | Some (JObj parsed) \<Rightarrow>
                     (let ps = obj_get parsed ''states'';
                          pt = obj_get parsed ''transitions''
                      in if truthy ps \<and> iterate ps = None then (states, transitions, sources1)
                         else (let states1 = (if truthy ps then union_loop (the (iterate ps)) states else states)
                               in if truthy pt
                                  then (case iterate pt of
                                          None \<Rightarrow> (states1, transitions, sources1)
                                        | Some ts \<Rightarrow> (states1, transitions @ ts, sources1))
                                  else (states1, transitions, sources1)))
                 | Some _ \<Rightarrow> (states, transitions, sources1)))"

text \<open>The dash of the two suggestion texts, in its three bytes of UTF-8.\<close>

definition em_dash :: string where
  "em_dash = [CHR 0xE2, CHR 0x80, CHR 0x94]"

record infer_result =
  inf_nodeId :: string
  inf_nodeName :: string
  inf_states :: "jv list"
  inf_transitions :: "jv list"
  inf_confidence :: rat
  inf_sources :: "string list"
  inf_openQuestions :: "string list"
  inf_suggestedImplementation :: "string option"

text \<open>
  The handler. A node of type \<open>COMPONENT_SET\<close> has children; were \<open>children\<close> missing,
  the loop over it would throw outside the \<open>try\<close> block, and the dispatcher would turn
  that into an \<open>INTERNAL_ERROR\<close> (with the engine's message). The weights 0.4 and 0.3
  are decimal fractions here; their sums in floating point print as the same decimals.
\<close>

definition handleInferStates ::
  "(string \<Rightarrow> jv option) \<Rightarrow> figma_api \<Rightarrow> string \<Rightarrow> plugin_error + infer_result" where
  "handleInferStates JSON_parse figma nodeId =
     (case findNodeById figma nodeId of
        Inl e \<Rightarrow> Inl e
      | Inr node \<Rightarrow>
          if node_type (attrs node) = ''COMPONENT_SET'' \<and> children node = None
          then Inl (PluginError ''INTERNAL_ERROR'' ''componentSet.children is not iterable'')
          else
            (let (states1, transitions1, sources1) =
                   (if node_type (attrs node) = ''COMPONENT_SET''
                    then (let sts = variants_loop (the (children node)) []
                          in (sts, infer_transitions sts, [''variant-names'']))
                    else ([], [], []));
                 (transitions2, sources2) =
                   (case reactions (attrs node) of
                      Some rs \<Rightarrow>
                        if length rs > 0
                        then (reactions_loop (node_name (attrs node)) rs transitions1, sources1 @ [''prototype-reactions''])
                        else (transitions1, sources1)
                    | None \<Rightarrow> (transitions1, sources1));
                 (states, transitions, sources) =
                   annotation_source JSON_parse (sharedPluginData (attrs node))
                     (map JStr states1, transitions2, sources2);
                 c1 = (if ''variant-names'' \<in> set sources then 4 / 10 else 0);
                 c2 = (if ''prototype-reactions'' \<in> set sources then c1 + 3 / 10 else c1);
                 c3 = (if ''annotations'' \<in> set sources then c2 + 3 / 10 else c2);
                 confidence = (if length states = 0 then 0 else c3);
                 q1 = (if length states > 0 \<and> length transitions = 0
                       then [''States were found but no transitions could be inferred. How do users move between states?'']
                       else []);
                 openQuestions = (if ''annotations'' \<notin> set sources
                       then q1 @ [''No designer annotations found. Consider using forage_annotate_state to add explicit state rules.'']
                       else q1);
                 suggestedImplementation =
                   (if length states > 0
                    then (if length states \<le> 3 \<and> length transitions \<le> 4
                          then Some (''useState '' @ em_dash @ '' simple enough for a single state variable'')
                          else Some (''useReducer '' @ em_dash @ '' complex state machine with multiple transitions''))
                    else None)
             in Inr \<lparr> inf_nodeId = nodeId, inf_nodeName = node_name (attrs node),
                      inf_states = states, inf_transitions = transitions, inf_confidence = confidence,
                      inf_sources = sources, inf_openQuestions = openQuestions,
                      inf_suggestedImplementation = suggestedImplementation \<rparr>))"

section \<open>Walking a tree and its projection\<close>

text \<open>
  The node reached from a raw node by a path of child positions, and the projection
  reached from a projection by the same path through its \<open>children\<close> fields.
\<close>

fun raw_at :: "raw_node \<Rightarrow> nat list \<Rightarrow> raw_node option" where
  "raw_at n [] = Some n"
| "raw_at n (i # p) =
     (case children n of
        Some cs \<Rightarrow> if i < length cs then raw_at (cs ! i) p else None
      | None \<Rightarrow> None)"

fun proj_at :: "jobj \<Rightarrow> nat list \<Rightarrow> jobj option" where
  "proj_at ob [] = Some ob"
| "proj_at ob (i # p) =
     (case obj_get ob ''children'' of
        JArr xs \<Rightarrow> if i < length xs then (case xs ! i of JObj c \<Rightarrow> proj_at c p | _ \<Rightarrow> None) else None
      | _ \<Rightarrow> None)"

definition has_children_field :: "jobj \<Rightarrow> bool" where
  "has_children_field ob \<longleftrightarrow> ''children'' \<in> set (Object_keys ob)"

definition without_children_field :: "jobj \<Rightarrow> jobj" where
  "without_children_field ob = filter (\<lambda>kv. fst kv \<noteq> ''children'') ob"

section \<open>Example documents\<close>

text \<open>A node that has nothing but its identity and is visible.\<close>

definition base_attrs :: "string \<Rightarrow> string \<Rightarrow> string \<Rightarrow> scene_attrs" where
  "base_attrs i nm ty =
     \<lparr> node_id = i, node_name = nm, node_type = ty, visible = True,
       width = None, height = None, layout = None, layoutChild = None, mainComponent = None,
       variantProperties = None, componentPropertyDefinitions = None, fills = None,
       strokes = None, effects = None, opacity = None, corners = None, text_props = None,
       reactions = None, sharedPluginData = [] \<rparr>"

text \<open>A screen with a card, a row in the card and a rectangle in the row.\<close>

definition example_leaf :: raw_node where
  "example_leaf = RawNode ((base_attrs ''1:4'' ''Dot'' ''RECTANGLE'')\<lparr> width := Some 8, height := Some 8 \<rparr>) None"

definition example_row :: raw_node where
  "example_row = RawNode (base_attrs ''1:3'' ''Row'' ''FRAME'') (Some [example_leaf])"

definition example_card :: raw_node where
  "example_card = RawNode (base_attrs ''1:2'' ''Card'' ''FRAME'') (Some [example_row])"

definition example_screen :: raw_node where
  "example_screen = RawNode (base_attrs ''1:1'' ''Screen'' ''FRAME'') (Some [example_card])"

text \<open>Two rectangles that differ in their width only, and two nodes with nothing but their identity.\<close>

definition example_rect_a :: raw_node where
  "example_rect_a = RawNode ((base_attrs ''2:1'' ''A'' ''RECTANGLE'')\<lparr> width := Some 10 \<rparr>) None"

definition example_rect_b :: raw_node where
  "example_rect_b = RawNode ((base_attrs ''2:2'' ''B'' ''RECTANGLE'')\<lparr> width := Some 20 \<rparr>) None"

definition example_bare_a :: raw_node where
  "example_bare_a = RawNode (base_attrs ''3:1'' ''A'' ''SLICE'') None"

definition example_bare_b :: raw_node where
  "example_bare_b = RawNode (base_attrs ''3:2'' ''B'' ''SLICE'') None"

definition example_figma :: figma_api where
  "example_figma =
     \<lparr> getNodeById = (\<lambda>i. if i = ''1:1'' then Some (SceneNode example_screen)
                          else if i = ''2:1'' then Some (SceneNode example_rect_a)
                          else if i = ''2:2'' then Some (SceneNode example_rect_b)
                          else None),
       currentPage = \<lparr> page_id = ''0:1'', page_name = ''Page 1'',
                       page_children = [example_screen, example_rect_a, example_rect_b] \<rparr> \<rparr>"

text \<open>Component sets: a set of variants, with the annotation text stored on the set.\<close>

definition example_variant :: "string \<Rightarrow> string \<Rightarrow> raw_node" where
  "example_variant i nm = RawNode (base_attrs i nm ''COMPONENT'') (Some [])"

definition example_component_set :: "string \<Rightarrow> raw_node list \<Rightarrow> raw_node" where
  "example_component_set annotation variants =
     RawNode ((base_attrs ''5:0'' ''Button'' ''COMPONENT_SET'')\<lparr> sharedPluginData := annotation \<rparr>) (Some variants)"

definition example_document :: "raw_node \<Rightarrow> figma_api" where
  "example_document n =
     \<lparr> getNodeById = (\<lambda>i. if i = node_id (attrs n) then Some (SceneNode n) else None),
       currentPage = \<lparr> page_id = ''0:1'', page_name = ''Page 1'', page_children = [n] \<rparr> \<rparr>"

section \<open>What the projector reads\<close>

text \<open>
  The projector reads neither the reactions nor the plugin data of a node. Two nodes
  look the same to it when they agree in every other attribute and in the number of
  their children; with \<open>includeChildren\<close>, when their children pairwise do so as well.
\<close>

definition projected_attrs :: "scene_attrs \<Rightarrow> scene_attrs" where
  "projected_attrs node = node\<lparr> reactions := None, sharedPluginData := [] \<rparr>"

definition same_own :: "raw_node \<Rightarrow> raw_node \<Rightarrow> bool" where
  "same_own n n' \<longleftrightarrow>
     projected_attrs (attrs n) = projected_attrs (attrs n') \<and>
     map_option length (children n) = map_option length (children n')"

definition same_view :: "bool \<Rightarrow> raw_node \<Rightarrow> raw_node \<Rightarrow> bool" where
  "same_view includeChildren n n' \<longleftrightarrow>
     same_own n n' \<and>
     (if includeChildren
      then (case (children n, children n') of
              (Some cs, Some cs') \<Rightarrow> list_all2 same_own cs cs'
            | (None, None) \<Rightarrow> True
            | _ \<Rightarrow> False)
      else True)"

text \<open>A card like \<open>example_card\<close>, with other plugin data and another rectangle in its row.\<close>

definition example_card_twin :: raw_node where
  "example_card_twin =
     RawNode ((base_attrs ''1:2'' ''Card'' ''FRAME'')\<lparr> sharedPluginData := ''{}'' \<rparr>)
       (Some [RawNode (base_attrs ''1:3'' ''Row'' ''FRAME'')
                (Some [RawNode (base_attrs ''1:9'' ''Square'' ''RECTANGLE'') None])])"

section \<open>The similarity score in the words of the specification\<close>

text \<open>
  The score as the specification words it: the number of attribute keys (the keys other
  than \<open>id\<close>, \<open>name\<close> and \<open>type\<close>), the child-count key left aside, whose serialized
  values are equal, divided by the number of keys in the union of both attribute
  sets, and 0 when that union is empty.
\<close>

definition spec_similarity :: "jobj \<Rightarrow> jobj \<Rightarrow> rat" where
  "spec_similarity a b =
     (let keys = Set_from (Object_keys a @ Object_keys b);
          attribute_keys = filter (\<lambda>k. k \<notin> {''id'', ''name'', ''type''}) keys;
          matching = filter (\<lambda>k. k \<noteq> ''childCount'' \<and>
                                  JSON_stringify (obj_get a k) = JSON_stringify (obj_get b k)) attribute_keys
      in if length attribute_keys = 0 then 0
         else of_nat (length matching) / of_nat (length attribute_keys))"

section \<open>Keys with different values\<close>

text \<open>The test of the loops of the differ and the scorer: the serialized values under a key differ.\<close>

definition differs :: "jobj \<Rightarrow> jobj \<Rightarrow> string \<Rightarrow> bool" where
  "differs A B k \<longleftrightarrow> JSON_stringify (obj_get A k) \<noteq> JSON_stringify (obj_get B k)"


section \<open>Properties of the bridge\<close>

lemma digit_val_digit: "d < 10 \<Longrightarrow> digit_val (digit d) = d"
proof -
  assume "d < 10"
  then have "d \<in> {0, 1, 2, 3, 4, 5, 6, 7, 8, 9}" by auto
  then show ?thesis
    by (auto simp: digit_def digit_val_def)
qed

lemma read_nat_snoc: "read_nat (cs @ [c]) = 10 * read_nat cs + digit_val c"
  by (simp add: read_nat_def)

lemma read_nat_String_nat: "read_nat (String_nat n) = n"
proof (induction n rule: String_nat.induct)
  case (1 n)
  show ?case
  proof (cases "n < 10")
    case True
    then show ?thesis
      by (subst String_nat.simps) (simp add: read_nat_def digit_val_digit)
  next
    case False
    with 1 have "read_nat (String_nat (n div 10)) = n div 10" by simp
    with False show ?thesis
      by (subst String_nat.simps) (simp add: read_nat_snoc digit_val_digit)
  qed
qed

lemma String_nat_inject: "String_nat m = String_nat n \<Longrightarrow> m = n"
  by (metis read_nat_String_nat)

lemma inv_init: "bridge_inv init"
  by (simp add: bridge_inv_def init_def)

lemma bridge_inv_cong:
  assumes "pendingRequests s' = pendingRequests s" "timers s' = timers s"
    "settled s' = settled s" "nextId s' = nextId s"
  shows "bridge_inv s' = bridge_inv s"
  unfolding bridge_inv_def assms ..

lemma inv_handleConnection: "bridge_inv s \<Longrightarrow> bridge_inv (handleConnection w s)"
  by (subst bridge_inv_cong [where s = s])
     (simp_all add: handleConnection_def Let_def split: option.splits)

lemma inv_ready_upd: "bridge_inv (s\<lparr> ready := r \<rparr>) = bridge_inv s"
  by (rule bridge_inv_cong) simp_all

lemma inv_plugin_upd: "bridge_inv (s\<lparr> plugin := r \<rparr>) = bridge_inv s"
  by (rule bridge_inv_cong) simp_all

lemma invD_entry:
  assumes "bridge_inv s" "map_of (pendingRequests s) k = Some req"
  shows "k = String_nat (promise req)" "timer req = promise req" "0 < promise req"
    "promise req \<le> nextId s"
    "\<exists>m. map_of (timers s) (promise req) = Some \<lparr> t_id = k, t_promise = promise req, t_method = m \<rparr>"
    "promise req \<notin> fst ` set (settled s)"
  using assms unfolding bridge_inv_def by metis+

lemma invD_timer:
  assumes "bridge_inv s" "map_of (timers s) t = Some c"
  shows "map_of (pendingRequests s) (t_id c) = Some \<lparr> promise = t_promise c, timer = t \<rparr>"
  using assms unfolding bridge_inv_def by blast

lemma invD_settled:
  assumes "bridge_inv s" "p \<in> fst ` set (settled s)"
  shows "0 < p" "p \<le> nextId s"
  using assms unfolding bridge_inv_def by blast+

lemma invD_distinct:
  assumes "bridge_inv s"
  shows "distinct (map fst (pendingRequests s))" "distinct (map fst (settled s))"
  using assms unfolding bridge_inv_def by blast+

text \<open>Removing one entry together with its timer and settling its promise.\<close>

lemma inv_settle:
  assumes inv: "bridge_inv s"
    and pend: "map_of (pendingRequests s) k = Some req"
    and s': "pendingRequests s' = AList.delete k (pendingRequests s)"
       "timers s' = AList.delete (timer req) (timers s)"
       "settled s' = settled s @ [(promise req, oc)]"
       "nextId s' = nextId s"
  shows "bridge_inv s'"
proof -
  note e = invD_entry [OF inv pend]
  note d = invD_distinct [OF inv]
  have c1: "distinct (map fst (pendingRequests s'))"
    using d by (simp add: s' distinct_delete)
  have c2: "distinct (map fst (settled s'))"
    using d e(6) by (simp add: s')
  have c3: "k' = String_nat (promise r) \<and> timer r = promise r \<and> 0 < promise r \<and> promise r \<le> nextId s' \<and>
        (\<exists>m. map_of (timers s') (timer r) = Some \<lparr> t_id = k', t_promise = promise r, t_method = m \<rparr>) \<and>
        promise r \<notin> fst ` set (settled s')"
    if "map_of (pendingRequests s') k' = Some r" for k' r
  proof -
    from that have ne: "k' \<noteq> k" and old: "map_of (pendingRequests s) k' = Some r"
      by (auto simp: s' delete_conv' split: if_splits)
    note e' = invD_entry [OF inv old]
    from ne e(1) e'(1) have pne: "promise r \<noteq> promise req" by auto
    with e' e(2) show ?thesis
      by (simp add: s' delete_conv')
  qed
  have c4: "map_of (pendingRequests s') (t_id c) = Some \<lparr> promise = t_promise c, timer = t \<rparr>"
    if "map_of (timers s') t = Some c" for t c
  proof -
    from that have ne: "t \<noteq> timer req" and old: "map_of (timers s) t = Some c"
      by (auto simp: s' delete_conv' split: if_splits)
    from invD_timer [OF inv old] have p: "map_of (pendingRequests s) (t_id c) = Some \<lparr> promise = t_promise c, timer = t \<rparr>" .
    with pend ne have "t_id c \<noteq> k" by auto
    with p show ?thesis by (simp add: s' delete_conv')
  qed
  have c5: "0 < p \<and> p \<le> nextId s'" if "p \<in> fst ` set (settled s')" for p
    using that invD_settled [OF inv, of p] e(3,4) by (auto simp: s')
  from c1 c2 c3 c4 c5 show ?thesis
    unfolding bridge_inv_def by blast
qed


lemma inv_on_message: "bridge_inv s \<Longrightarrow> bridge_inv (on_message data s)"
proof -
  assume inv: "bridge_inv s"
  show ?thesis
  proof (cases data)
    case None
    with inv show ?thesis by (simp add: on_message_def)
  next
    case (Some response)
    show ?thesis
    proof (cases "map_of (pendingRequests s) (resp_id response)")
      case None
      with inv Some show ?thesis by (simp add: on_message_def)
    next
      case (Some pending)
      note pend = this
      show ?thesis
      proof (cases "resp_error response")
        case None
        show ?thesis
          by (rule inv_settle [OF inv pend, where oc = "Resolved (resp_result response)"])
             (simp_all add: on_message_def \<open>data = Some response\<close> pend None
                clearTimeout_def pending_delete_def call_resolve_def)
      next
        case (Some e)
        show ?thesis
          by (rule inv_settle [OF inv pend, where oc = "Rejected (Error (''['' @ code e @ ''] '' @ message e))"])
             (simp_all add: on_message_def \<open>data = Some response\<close> pend Some
                clearTimeout_def pending_delete_def call_reject_def)
      qed
    qed
  qed
qed

lemma inv_on_timeout: "bridge_inv s \<Longrightarrow> bridge_inv (on_timeout t s)"
proof -
  assume inv: "bridge_inv s"
  show ?thesis
  proof (cases "map_of (timers s) t")
    case None
    with inv show ?thesis by (simp add: on_timeout_def)
  next
    case (Some c)
    from invD_timer [OF inv Some]
    have pend: "map_of (pendingRequests s) (t_id c) = Some \<lparr> promise = t_promise c, timer = t \<rparr>" .
    show ?thesis
      by (rule inv_settle [OF inv pend, where oc = "Rejected (Error (''Request timed out after 10s: '' @ t_method c))"])
         (simp_all add: on_timeout_def Some clearTimeout_def pending_delete_def call_reject_def)
  qed
qed

lemma reject_loop_step:
  "reject_loop ((k, req) # rest) s =
     reject_loop rest (s\<lparr> timers := AList.delete (timer req) (timers s),
                          settled := settled s @ [(promise req, Rejected (Error ''Figma plugin disconnected''))],
                          pendingRequests := AList.delete k (pendingRequests s) \<rparr>)"
  by (simp add: clearTimeout_def pending_delete_def call_reject_def)

lemma inv_reject_loop:
  "bridge_inv s \<Longrightarrow> distinct (map fst es) \<Longrightarrow>
   (\<forall>(k, r) \<in> set es. map_of (pendingRequests s) k = Some r) \<Longrightarrow>
   bridge_inv (reject_loop es s)"
proof (induction es arbitrary: s)
  case Nil
  then show ?case by simp
next
  case (Cons a es)
  obtain k req where a: "a = (k, req)" by (cases a)
  let ?s1 = "s\<lparr> timers := AList.delete (timer req) (timers s),
                settled := settled s @ [(promise req, Rejected (Error ''Figma plugin disconnected''))],
                pendingRequests := AList.delete k (pendingRequests s) \<rparr>"
  from Cons.prems a have pend: "map_of (pendingRequests s) k = Some req" by simp
  have inv1: "bridge_inv ?s1"
    by (rule inv_settle [OF Cons.prems(1) pend]) simp_all
  have rest: "\<forall>(k', r) \<in> set es. map_of (pendingRequests ?s1) k' = Some r"
  proof (clarify)
    fix k' r assume m: "(k', r) \<in> set es"
    with Cons.prems(2) a have "k' \<noteq> k" by (auto simp: image_iff)
    moreover from m Cons.prems(3) have "map_of (pendingRequests s) k' = Some r" by auto
    ultimately show "map_of (pendingRequests ?s1) k' = Some r" by (simp add: delete_conv')
  qed
  from Cons.prems(2) have "distinct (map fst es)" by simp
  from Cons.IH [OF inv1 this rest] show ?case
    unfolding a reject_loop_step .
qed

lemma pending_reject_loop:
  "pendingRequests (reject_loop es s) = filter (\<lambda>e. fst e \<notin> fst ` set es) (pendingRequests s)"
proof (induction es arbitrary: s)
  case Nil
  then show ?case by simp
next
  case (Cons a es)
  obtain k req where a: "a = (k, req)" by (cases a)
  show ?case
    unfolding a reject_loop_step Cons.IH
    by (auto simp: AList.delete_eq intro: filter_cong)
qed

lemma settled_reject_loop:
  "settled (reject_loop es s) =
     settled s @ map (\<lambda>e. (promise (snd e), Rejected (Error ''Figma plugin disconnected''))) es"
proof (induction es arbitrary: s)
  case Nil
  then show ?case by simp
next
  case (Cons a es)
  obtain k req where a: "a = (k, req)" by (cases a)
  show ?case
    unfolding a reject_loop_step Cons.IH by simp
qed

lemma timers_reject_loop:
  "map_of (timers (reject_loop es s)) t =
     (if t \<in> (\<lambda>e. timer (snd e)) ` set es then None else map_of (timers s) t)"
proof (induction es arbitrary: s)
  case Nil
  then show ?case by simp
next
  case (Cons a es)
  obtain k req where a: "a = (k, req)" by (cases a)
  show ?case
    unfolding a reject_loop_step Cons.IH by (simp add: delete_conv')
qed

lemma other_reject_loop:
  "plugin (reject_loop es s) = plugin s \<and> nextId (reject_loop es s) = nextId s \<and>
   ready (reject_loop es s) = ready s \<and> handlers (reject_loop es s) = handlers s \<and>
   outbox (reject_loop es s) = outbox s"
proof (induction es arbitrary: s)
  case Nil
  then show ?case by simp
next
  case (Cons a es)
  obtain k req where a: "a = (k, req)" by (cases a)
  show ?case
    unfolding a reject_loop_step using Cons.IH by simp
qed

lemma inv_on_close: "bridge_inv s \<Longrightarrow> bridge_inv (on_close w s)"
proof -
  assume inv: "bridge_inv s"
  let ?s1 = "if plugin s = Some w then s\<lparr> plugin := None \<rparr> else s"
  have inv1: "bridge_inv ?s1" using inv by (simp add: inv_plugin_upd)
  have p1: "pendingRequests ?s1 = pendingRequests s" by simp
  have "bridge_inv (reject_loop (pendingRequests ?s1) ?s1)"
  proof (rule inv_reject_loop [OF inv1])
    show "distinct (map fst (pendingRequests ?s1))"
      using invD_distinct(1) [OF inv] by simp
    show "\<forall>(k, r) \<in> set (pendingRequests ?s1). map_of (pendingRequests ?s1) k = Some r"
      using invD_distinct(1) [OF inv] by (auto simp: p1)
  qed
  then show ?thesis by (simp add: on_close_def Let_def)
qed


lemma send_accepted:
  assumes "plugin s = Some p" "ready s p = OPEN"
  shows "send method params s =
     (Inr (nextId s + 1),
      s\<lparr> nextId := nextId s + 1,
         timers := AList.update (nextId s + 1)
            \<lparr> t_id = String_nat (nextId s + 1), t_promise = nextId s + 1, t_method = method \<rparr> (timers s),
         pendingRequests := AList.update (String_nat (nextId s + 1))
            \<lparr> promise = nextId s + 1, timer = nextId s + 1 \<rparr> (pendingRequests s),
         outbox := outbox s @ [(p, \<lparr> cmd_id = String_nat (nextId s + 1), cmd_method = method, cmd_params = params \<rparr>)] \<rparr>)"
  using assms by (simp add: send_def Let_def)

lemma send_refused:
  assumes "\<not> connected_bridge s"
  shows "send method params s =
     (Inl (Error ''Not connected to Figma plugin. Is the Forage plugin running in Figma?''), s)"
  using assms by (auto simp: send_def connected_bridge_def split: option.splits)

lemma inv_fresh:
  assumes inv: "bridge_inv s"
  shows "map_of (pendingRequests s) (String_nat (nextId s + 1)) = None"
    "map_of (timers s) (nextId s + 1) = None"
    "nextId s + 1 \<notin> fst ` set (settled s)"
proof -
  show a: "map_of (pendingRequests s) (String_nat (nextId s + 1)) = None"
  proof (cases "map_of (pendingRequests s) (String_nat (nextId s + 1))")
    case (Some req)
    from invD_entry(1,4) [OF inv Some] have "promise req = nextId s + 1" "promise req \<le> nextId s"
      by (auto dest: String_nat_inject)
    then show ?thesis by simp
  qed simp
  show "map_of (timers s) (nextId s + 1) = None"
  proof (cases "map_of (timers s) (nextId s + 1)")
    case (Some c)
    from invD_timer [OF inv Some] have e: "map_of (pendingRequests s) (t_id c) = Some \<lparr> promise = t_promise c, timer = nextId s + 1 \<rparr>" .
    from invD_entry(2,4) [OF inv e] show ?thesis by simp
  qed simp
  show "nextId s + 1 \<notin> fst ` set (settled s)"
    using invD_settled(2) [OF inv, of "nextId s + 1"] by auto
qed

lemma inv_send: "bridge_inv s \<Longrightarrow> bridge_inv (snd (send method params s))"
proof -
  assume inv: "bridge_inv s"
  show ?thesis
  proof (cases "connected_bridge s")
    case False
    with inv show ?thesis by (simp add: send_refused)
  next
    case True
    then obtain p where p: "plugin s = Some p" "ready s p = OPEN"
      by (auto simp: connected_bridge_def split: option.splits)
    let ?n = "nextId s + 1"
    let ?k = "String_nat ?n"
    let ?s' = "snd (send method params s)"
    have f: "pendingRequests ?s' = AList.update ?k \<lparr> promise = ?n, timer = ?n \<rparr> (pendingRequests s)"
      "timers ?s' = AList.update ?n \<lparr> t_id = ?k, t_promise = ?n, t_method = method \<rparr> (timers s)"
      "settled ?s' = settled s" "nextId ?s' = ?n"
      by (simp_all add: send_accepted [OF p])
    note fr = inv_fresh [OF inv]
    note d = invD_distinct [OF inv]
    have c1: "distinct (map fst (pendingRequests ?s'))"
      using d by (simp add: f distinct_update)
    have c2: "distinct (map fst (settled ?s'))"
      using d by (simp add: f)
    have c3: "k' = String_nat (promise r) \<and> timer r = promise r \<and> 0 < promise r \<and> promise r \<le> nextId ?s' \<and>
        (\<exists>m. map_of (timers ?s') (timer r) = Some \<lparr> t_id = k', t_promise = promise r, t_method = m \<rparr>) \<and>
        promise r \<notin> fst ` set (settled ?s')"
      if "map_of (pendingRequests ?s') k' = Some r" for k' r
    proof (cases "k' = ?k")
      case True
      with that have "r = \<lparr> promise = ?n, timer = ?n \<rparr>" by (simp add: f update_conv')
      with True fr(3) show ?thesis by (simp add: f update_conv')
    next
      case False
      with that have old: "map_of (pendingRequests s) k' = Some r" by (simp add: f update_conv')
      note e = invD_entry [OF inv old]
      from e(4) have "promise r \<noteq> ?n" by simp
      with e show ?thesis by (simp add: f update_conv')
    qed
    have c4: "map_of (pendingRequests ?s') (t_id c) = Some \<lparr> promise = t_promise c, timer = t \<rparr>"
      if "map_of (timers ?s') t = Some c" for t c
    proof (cases "t = ?n")
      case True
      with that have "c = \<lparr> t_id = ?k, t_promise = ?n, t_method = method \<rparr>" by (simp add: f update_conv')
      with True show ?thesis by (simp add: f update_conv')
    next
      case False
      with that have old: "map_of (timers s) t = Some c" by (simp add: f update_conv')
      from invD_timer [OF inv old] have e: "map_of (pendingRequests s) (t_id c) = Some \<lparr> promise = t_promise c, timer = t \<rparr>" .
      with fr(1) have "t_id c \<noteq> ?k" by auto
      with e show ?thesis by (simp add: f update_conv')
    qed
    have c5: "0 < q \<and> q \<le> nextId ?s'" if "q \<in> fst ` set (settled ?s')" for q
      using that invD_settled [OF inv, of q] by (auto simp: f)
    from c1 c2 c3 c4 c5 show ?thesis
      unfolding bridge_inv_def by blast
  qed
qed

lemma fold_clearTimeout:
  "settled (fold (\<lambda>(k, req). clearTimeout (timer req)) es s) = settled s \<and>
   nextId (fold (\<lambda>(k, req). clearTimeout (timer req)) es s) = nextId s \<and>
   plugin (fold (\<lambda>(k, req). clearTimeout (timer req)) es s) = plugin s \<and>
   ready (fold (\<lambda>(k, req). clearTimeout (timer req)) es s) = ready s \<and>
   map_of (timers (fold (\<lambda>(k, req). clearTimeout (timer req)) es s)) t =
     (if t \<in> (\<lambda>e. timer (snd e)) ` set es then None else map_of (timers s) t)"
proof (induction es arbitrary: s)
  case Nil
  then show ?case by simp
next
  case (Cons a es)
  obtain k req where a: "a = (k, req)" by (cases a)
  show ?case
    using Cons.IH [of "clearTimeout (timer req) s"]
    by (simp add: a clearTimeout_def delete_conv')
qed

lemma close_fields:
  "pendingRequests (close s) = [] \<and> settled (close s) = settled s \<and> nextId (close s) = nextId s \<and>
   plugin (close s) = plugin s \<and> ready (close s) = ready s"
  using fold_clearTimeout [of "pendingRequests s" s] by (simp add: close_def)

lemma close_timers:
  "map_of (timers (close s)) t =
     (if t \<in> (\<lambda>e. timer (snd e)) ` set (pendingRequests s) then None else map_of (timers s) t)"
  using fold_clearTimeout [of "pendingRequests s" s t] by (simp add: close_def)

lemma inv_close: "bridge_inv s \<Longrightarrow> bridge_inv (close s)"
proof -
  assume inv: "bridge_inv s"
  have t: "map_of (timers (close s)) t = None" for t
  proof (cases "map_of (timers s) t")
    case None
    then show ?thesis by (simp add: close_timers)
  next
    case (Some c)
    from invD_timer [OF inv Some] have "map_of (pendingRequests s) (t_id c) = Some \<lparr> promise = t_promise c, timer = t \<rparr>" .
    then have "(t_id c, \<lparr> promise = t_promise c, timer = t \<rparr>) \<in> set (pendingRequests s)"
      by (rule map_of_SomeD)
    then have "t \<in> (\<lambda>e. timer (snd e)) ` set (pendingRequests s)" by force
    then show ?thesis by (simp add: close_timers)
  qed
  show ?thesis
    unfolding bridge_inv_def
    using invD_distinct(2) [OF inv] invD_settled [OF inv] by (simp add: close_fields t)
qed

lemma inv_step: "bridge_inv s \<Longrightarrow> bridge_inv (step e s)"
  by (cases e)
     (simp_all add: step_def inv_handleConnection inv_ready_upd inv_on_message inv_on_close
        inv_on_timeout inv_send inv_close on_error_def)

lemma inv_run: "bridge_inv s \<Longrightarrow> bridge_inv (run es s)"
  unfolding run_def by (induction es arbitrary: s) (simp_all add: inv_step)


lemma count_list_distinct: "distinct xs \<Longrightarrow> count_list xs x = (if x \<in> set xs then 1 else 0)"
  by (induction xs) auto

lemma fires_le_1: "bridge_inv s \<Longrightarrow> fires p s \<le> 1"
  using invD_distinct(2) [of s] by (simp add: fires_def count_list_distinct)

lemma fires_pending:
  assumes "bridge_inv s" "map_of (pendingRequests s) k = Some req"
  shows "fires (promise req) s = 0"
  using invD_entry(6) [OF assms] by (simp add: fires_def)

lemma terminated_settle:
  assumes inv: "bridge_inv s"
    and pend: "map_of (pendingRequests s) k = Some req"
    and s': "pendingRequests s' = AList.delete k (pendingRequests s)"
       "timers s' = AList.delete (timer req) (timers s)"
       "settled s' = settled s @ [(promise req, oc)]"
  shows "terminated k req s'"
  using fires_pending [OF inv pend]
  by (simp add: terminated_def s' delete_conv' fires_def)

lemma terminated_on_message:
  assumes inv: "bridge_inv s"
    and pend: "map_of (pendingRequests s) k = Some req"
    and r: "resp_id r = k"
  shows "terminated k req (on_message (Some r) s)"
proof (cases "resp_error r")
  case None
  show ?thesis
    by (rule terminated_settle [OF inv pend, where oc = "Resolved (resp_result r)"])
       (simp_all add: on_message_def pend r None clearTimeout_def pending_delete_def call_resolve_def)
next
  case (Some e)
  show ?thesis
    by (rule terminated_settle [OF inv pend, where oc = "Rejected (Error (''['' @ code e @ ''] '' @ message e))"])
       (simp_all add: on_message_def pend r Some clearTimeout_def pending_delete_def call_reject_def)
qed

lemma terminated_on_timeout:
  assumes inv: "bridge_inv s"
    and pend: "map_of (pendingRequests s) k = Some req"
  shows "terminated k req (on_timeout (timer req) s)"
proof -
  from invD_entry(2,5) [OF inv pend] obtain m where
    c: "map_of (timers s) (timer req) = Some \<lparr> t_id = k, t_promise = promise req, t_method = m \<rparr>"
    by auto
  show ?thesis
    by (rule terminated_settle [OF inv pend, where oc = "Rejected (Error (''Request timed out after 10s: '' @ m))"])
       (simp_all add: on_timeout_def c clearTimeout_def pending_delete_def call_reject_def)
qed

lemma on_close_fields:
  "pendingRequests (on_close w s) = [] \<and>
   settled (on_close w s) = settled s @ map (\<lambda>e. (promise (snd e), disconnected)) (pendingRequests s) \<and>
   (\<forall>t. map_of (timers (on_close w s)) t =
      (if t \<in> (\<lambda>e. timer (snd e)) ` set (pendingRequests s) then None else map_of (timers s) t)) \<and>
   plugin (on_close w s) = (if plugin s = Some w then None else plugin s) \<and>
   nextId (on_close w s) = nextId s \<and> ready (on_close w s) = ready s \<and>
   handlers (on_close w s) = handlers s \<and> outbox (on_close w s) = outbox s"
proof -
  have "filter (\<lambda>e. fst e \<notin> fst ` set xs) xs = []" for xs :: "(string \<times> pending_request) list"
    by (simp add: filter_empty_conv)
  then show ?thesis
    by (simp add: on_close_def Let_def pending_reject_loop settled_reject_loop timers_reject_loop
        other_reject_loop disconnected_def)
qed

lemma promises_distinct:
  assumes inv: "bridge_inv s"
  shows "distinct (map (\<lambda>e. promise (snd e)) (pendingRequests s))"
proof -
  have d: "distinct (map fst (pendingRequests s))" by (rule invD_distinct(1) [OF inv])
  have "fst e = String_nat (promise (snd e))" if "e \<in> set (pendingRequests s)" for e
  proof -
    from that d have "map_of (pendingRequests s) (fst e) = Some (snd e)" by simp
    from invD_entry(1) [OF inv this] show ?thesis .
  qed
  then have "map fst (pendingRequests s) = map (String_nat \<circ> (\<lambda>e. promise (snd e))) (pendingRequests s)"
    by simp
  with d have "distinct (map String_nat (map (\<lambda>e. promise (snd e)) (pendingRequests s)))"
    by simp
  then have "distinct (map (\<lambda>e. promise (snd e)) (pendingRequests s)) \<and>
    inj_on String_nat (set (map (\<lambda>e. promise (snd e)) (pendingRequests s)))"
    by (rule distinct_map [THEN iffD1])
  then show ?thesis by (rule conjunct1)
qed


lemma terminated_on_close:
  assumes inv: "bridge_inv s"
    and pend: "map_of (pendingRequests s) k = Some req"
  shows "terminated k req (on_close w s)"
proof -
  from pend have mem: "(k, req) \<in> set (pendingRequests s)" by (rule map_of_SomeD)
  then have t: "timer req \<in> (\<lambda>e. timer (snd e)) ` set (pendingRequests s)" by force
  from mem have p: "promise req \<in> set (map (\<lambda>e. promise (snd e)) (pendingRequests s))" by force
  have "count_list (map (\<lambda>e. promise (snd e)) (pendingRequests s)) (promise req) = 1"
    using promises_distinct [OF inv] p by (simp add: count_list_distinct)
  moreover have "count_list (map fst (settled s)) (promise req) = 0"
    using fires_pending [OF inv pend] by (simp add: fires_def)
  ultimately have "fires (promise req) (on_close w s) = 1"
    by (simp add: fires_def on_close_fields comp_def)
  with t show ?thesis
    by (simp add: terminated_def on_close_fields)
qed

lemma send_creates_entry:
  assumes inv: "bridge_inv s" and c: "connected_bridge s"
  shows "fst (send method params s) = Inr (nextId s + 1) \<and>
     map_of (pendingRequests (snd (send method params s))) (String_nat (nextId s + 1)) =
       Some \<lparr> promise = nextId s + 1, timer = nextId s + 1 \<rparr> \<and>
     fires (nextId s + 1) (snd (send method params s)) = 0"
proof -
  from c obtain p where p: "plugin s = Some p" "ready s p = OPEN"
    by (auto simp: connected_bridge_def split: option.splits)
  show ?thesis
    using inv_fresh(3) [OF inv]
    by (simp add: send_accepted [OF p] update_conv' fires_def)
qed

text \<open>
  Claim C1. In every state the bridge can reach, no promise has had more than one call of
  its callbacks. A \<open>send\<close> on a live connection files the request under a fresh id with
  no call on record. While an entry is in the map, its promise is unsettled and its
  timer is armed; and each of the three ends (a response with the entry's id, the
  request's timer firing, a \<open>close\<close> event) removes the entry, disarms the timer and
  leaves exactly one call of \<open>resolve\<close> or \<open>reject\<close> on record. As the state after
  the event is reachable again, that call stays the only one. (\<open>close()\<close> of the bridge
  itself, which is none of the three ends, empties the map without a call.)
\<close>

theorem request_settled_exactly_once:
  "(\<forall>p. fires p (run es init) \<le> 1) \<and>
   (\<forall>method params. connected_bridge (run es init) \<longrightarrow>
      fst (send method params (run es init)) = Inr (nextId (run es init) + 1) \<and>
      map_of (pendingRequests (snd (send method params (run es init)))) (String_nat (nextId (run es init) + 1)) =
        Some \<lparr> promise = nextId (run es init) + 1, timer = nextId (run es init) + 1 \<rparr> \<and>
      fires (nextId (run es init) + 1) (snd (send method params (run es init))) = 0) \<and>
   (\<forall>k req. map_of (pendingRequests (run es init)) k = Some req \<longrightarrow>
      fires (promise req) (run es init) = 0 \<and>
      map_of (timers (run es init)) (timer req) \<noteq> None \<and>
      (\<forall>r. resp_id r = k \<longrightarrow> terminated k req (on_message (Some r) (run es init))) \<and>
      terminated k req (on_timeout (timer req) (run es init)) \<and>
      (\<forall>w. terminated k req (on_close w (run es init))))"
proof -
  have inv: "bridge_inv (run es init)" by (rule inv_run [OF inv_init])
  have armed: "map_of (timers (run es init)) (timer req) \<noteq> None"
    if "map_of (pendingRequests (run es init)) k = Some req" for k req
    using invD_entry(2,5) [OF inv that] by auto
  from fires_le_1 [OF inv] send_creates_entry [OF inv] fires_pending [OF inv] armed
    terminated_on_message [OF inv] terminated_on_timeout [OF inv] terminated_on_close [OF inv]
  show ?thesis by blast
qed


lemma run_example:
  "run [Connection 1, Send ''getPages'' JUndefined] init =
     \<lparr> plugin = Some 1,
       pendingRequests = [(''1'', \<lparr> promise = 1, timer = 1 \<rparr>)],
       nextId = 1,
       ready = (\<lambda>_. CONNECTING)(1 := OPEN),
       handlers = [1],
       timers = [(1, \<lparr> t_id = ''1'', t_promise = 1, t_method = ''getPages'' \<rparr>)],
       settled = [],
       outbox = [(1, \<lparr> cmd_id = ''1'', cmd_method = ''getPages'', cmd_params = JUndefined \<rparr>)] \<rparr>"
  by (simp add: run_def step_def handleConnection_def init_def send_def Let_def
      String_nat.simps digit_def)

theorem request_settled_exactly_once_witness:
  "map_of (pendingRequests (run [Connection 1, Send ''getPages'' JUndefined] init)) ''1'' =
     Some \<lparr> promise = 1, timer = 1 \<rparr> \<and>
   terminated ''1'' \<lparr> promise = 1, timer = 1 \<rparr>
     (on_message (Some \<lparr> resp_id = ''1'', resp_result = JNull, resp_error = None \<rparr>)
        (run [Connection 1, Send ''getPages'' JUndefined] init)) \<and>
   terminated ''1'' \<lparr> promise = 1, timer = 1 \<rparr>
     (on_timeout 1 (run [Connection 1, Send ''getPages'' JUndefined] init)) \<and>
   terminated ''1'' \<lparr> promise = 1, timer = 1 \<rparr>
     (on_close 1 (run [Connection 1, Send ''getPages'' JUndefined] init))"
proof -
  have h: "map_of (pendingRequests (run [Connection 1, Send ''getPages'' JUndefined] init)) ''1'' =
     Some \<lparr> promise = 1, timer = 1 \<rparr>"
    by (subst run_example) simp
  have r: "resp_id \<lparr> resp_id = ''1'', resp_result = JNull, resp_error = None \<rparr> = ''1''" by simp
  from request_settled_exactly_once [of "[Connection 1, Send ''getPages'' JUndefined]"] h r
  show ?thesis
    by (metis pending_request.select_convs(2))
qed

text \<open>
  Claim C2. When the bridge has no plugin socket, or its plugin socket is not open,
  \<open>send\<close> throws the connection error and leaves the bridge as it was: no entry is put
  into the map, no id is taken from the counter and no timer is set.
\<close>

theorem send_without_connection:
  "plugin s = None \<or> (\<exists>p. plugin s = Some p \<and> ready s p \<noteq> OPEN) \<Longrightarrow>
   send method params s =
     (Inl (Error ''Not connected to Figma plugin. Is the Forage plugin running in Figma?''), s) \<and>
   pendingRequests (snd (send method params s)) = pendingRequests s \<and>
   nextId (snd (send method params s)) = nextId s \<and>
   timers (snd (send method params s)) = timers s"
  by (auto simp: send_def split: option.splits)

theorem send_without_connection_witness:
  "send ''getPages'' JUndefined init =
     (Inl (Error ''Not connected to Figma plugin. Is the Forage plugin running in Figma?''), init) \<and>
   send ''getPages'' JUndefined (run [Connection 1, Close 1] init) =
     (Inl (Error ''Not connected to Figma plugin. Is the Forage plugin running in Figma?''),
      run [Connection 1, Close 1] init) \<and>
   send ''getPages'' JUndefined (run [Connection 1, Connection 2, Close 2] init) =
     (Inl (Error ''Not connected to Figma plugin. Is the Forage plugin running in Figma?''),
      run [Connection 1, Connection 2, Close 2] init)"
proof -
  have a: "plugin init = None \<or> (\<exists>p. plugin init = Some p \<and> ready init p \<noteq> OPEN)"
    by (simp add: init_def)
  have b: "plugin (run [Connection 1, Close 1] init) = None \<or>
     (\<exists>p. plugin (run [Connection 1, Close 1] init) = Some p \<and> ready (run [Connection 1, Close 1] init) p \<noteq> OPEN)"
    by (simp add: run_def step_def handleConnection_def init_def on_close_def)
  have c: "plugin (run [Connection 1, Connection 2, Close 2] init) = None \<or>
     (\<exists>p. plugin (run [Connection 1, Connection 2, Close 2] init) = Some p \<and> ready (run [Connection 1, Connection 2, Close 2] init) p \<noteq> OPEN)"
    by (simp add: run_def step_def handleConnection_def init_def on_close_def)
  from send_without_connection [OF a] send_without_connection [OF b] send_without_connection [OF c]
  show ?thesis by simp
qed


text \<open>
  Claim C3, as stated, fails for the \<open>error\<close> event: with one request pending on the
  current connection, an \<open>error\<close> event on that connection leaves the entry in the map
  and rejects nothing.
\<close>

theorem error_event_rejects_nothing:
  "pendingRequests (step (SocketError 1 ''ECONNRESET'') (run [Connection 1, Send ''getPages'' JUndefined] init)) =
     [(''1'', \<lparr> promise = 1, timer = 1 \<rparr>)] \<and>
   settled (step (SocketError 1 ''ECONNRESET'') (run [Connection 1, Send ''getPages'' JUndefined] init)) = [] \<and>
   plugin (run [Connection 1, Send ''getPages'' JUndefined] init) = Some 1"
  by (subst run_example)+ (simp add: step_def on_error_def)

text \<open>
  Claim C3, amended. A \<open>close\<close> event rejects every entry of the map with the
  disconnection error, in the map's order, clears their timers and leaves the map empty;
  an \<open>error\<close> event changes nothing.
\<close>

theorem close_rejects_all_pending:
  "pendingRequests (on_close w s) = [] \<and>
   settled (on_close w s) = settled s @ map (\<lambda>e. (promise (snd e), disconnected)) (pendingRequests s) \<and>
   (\<forall>e \<in> set (pendingRequests s). map_of (timers (on_close w s)) (timer (snd e)) = None) \<and>
   on_error w err s = s"
  by (simp add: on_close_fields on_error_def)


theorem close_rejects_all_pending_witness:
  "pendingRequests (on_close 1 (run [Connection 1, Send ''getPages'' JUndefined] init)) = [] \<and>
   settled (on_close 1 (run [Connection 1, Send ''getPages'' JUndefined] init)) = [(1, disconnected)] \<and>
   map_of (timers (on_close 1 (run [Connection 1, Send ''getPages'' JUndefined] init))) 1 = None"
proof -
  have p: "pendingRequests (run [Connection 1, Send ''getPages'' JUndefined] init) = [(''1'', \<lparr> promise = 1, timer = 1 \<rparr>)]"
    "settled (run [Connection 1, Send ''getPages'' JUndefined] init) = []"
    by (subst run_example, simp)+
  from close_rejects_all_pending [of 1 "run [Connection 1, Send ''getPages'' JUndefined] init" "''x''"]
  show ?thesis
    unfolding p by simp
qed


text \<open>
  Claim C10. Let socket \<open>a\<close> be the live plugin and let a new socket \<open>b\<close> connect. Then
  \<open>b\<close> is the plugin, a \<open>send\<close> is accepted and written to \<open>b\<close>, and the \<open>close\<close> event
  of the replaced socket \<open>a\<close> that follows rejects that request with the disconnection
  error and empties the map, although \<open>b\<close> is still the plugin and still open.
\<close>

theorem stale_close_rejects_current_requests:
  assumes "plugin s = Some a" "ready s a = OPEN" "a \<in> set (handlers s)" "b \<notin> set (handlers s)"
  shows "plugin (step (Connection b) s) = Some b \<and>
     fst (send method params (step (Connection b) s)) = Inr (nextId s + 1) \<and>
     outbox (run [Connection b, Send method params] s) =
       outbox s @ [(b, \<lparr> cmd_id = String_nat (nextId s + 1), cmd_method = method, cmd_params = params \<rparr>)] \<and>
     map_of (pendingRequests (run [Connection b, Send method params] s)) (String_nat (nextId s + 1)) =
       Some \<lparr> promise = nextId s + 1, timer = nextId s + 1 \<rparr> \<and>
     plugin (run [Connection b, Send method params, Close a] s) = Some b \<and>
     ready (run [Connection b, Send method params, Close a] s) b = OPEN \<and>
     pendingRequests (run [Connection b, Send method params, Close a] s) = [] \<and>
     (nextId s + 1, disconnected) \<in> set (settled (run [Connection b, Send method params, Close a] s))"
proof -
  from assms have ne: "b \<noteq> a" by auto
  let ?s1 = "step (Connection b) s"
  have s1: "plugin ?s1 = Some b" "ready ?s1 b = OPEN" "nextId ?s1 = nextId s"
    "handlers ?s1 = b # handlers s" "outbox ?s1 = outbox s"
    using assms ne by (simp_all add: step_def handleConnection_def Let_def)
  note acc = send_accepted [OF s1(1,2), of "method" "params", unfolded s1(3,5)]
  let ?s2 = "snd (send method params ?s1)"
  have r2: "run [Connection b, Send method params] s = ?s2"
    by (simp add: run_def step_def)
  have c2: "fst (send method params ?s1) = Inr (nextId s + 1)"
    unfolding acc by simp
  have s2: "plugin ?s2 = Some b" "ready ?s2 b = OPEN" "a \<in> set (handlers ?s2)"
    unfolding acc using assms s1 by simp_all
  have c3: "outbox ?s2 = outbox s @ [(b, \<lparr> cmd_id = String_nat (nextId s + 1), cmd_method = method, cmd_params = params \<rparr>)]"
    unfolding acc by simp
  have c4: "map_of (pendingRequests ?s2) (String_nat (nextId s + 1)) = Some \<lparr> promise = nextId s + 1, timer = nextId s + 1 \<rparr>"
    unfolding acc by (simp add: update_conv')
  from c4 have mem: "(String_nat (nextId s + 1), \<lparr> promise = nextId s + 1, timer = nextId s + 1 \<rparr>) \<in> set (pendingRequests ?s2)"
    by (rule map_of_SomeD)
  let ?s3 = "on_close a (?s2\<lparr> ready := (ready ?s2)(a := CLOSED) \<rparr>)"
  have r3: "run [Connection b, Send method params, Close a] s = ?s3"
    using s2(3) by (simp add: run_def step_def)
  have "(\<lambda>e. (promise (snd e), disconnected)) (String_nat (nextId s + 1), \<lparr> promise = nextId s + 1, timer = nextId s + 1 \<rparr>)
      \<in> set (map (\<lambda>e. (promise (snd e), disconnected)) (pendingRequests ?s2))"
    using mem by (simp only: set_map) (rule imageI)
  then have c8: "(nextId s + 1, disconnected) \<in> set (settled ?s3)"
    by (simp add: on_close_fields)
  have c5: "plugin ?s3 = Some b" and c6: "ready ?s3 b = OPEN" and c7: "pendingRequests ?s3 = []"
    using s2(1,2) ne by (simp_all add: on_close_fields)
  show ?thesis
    unfolding r2 r3 using s1(1) c2 c3 c4 c5 c6 c7 c8 by (intro conjI)
qed



theorem stale_close_rejects_current_requests_witness:
  "plugin (run [Connection 7, Connection 8, Send ''getPages'' JUndefined, Close 7] init) = Some 8 \<and>
   ready (run [Connection 7, Connection 8, Send ''getPages'' JUndefined, Close 7] init) 8 = OPEN \<and>
   pendingRequests (run [Connection 7, Connection 8, Send ''getPages'' JUndefined, Close 7] init) = [] \<and>
   outbox (run [Connection 7, Connection 8, Send ''getPages'' JUndefined] init) =
     [(8, \<lparr> cmd_id = ''1'', cmd_method = ''getPages'', cmd_params = JUndefined \<rparr>)] \<and>
   (1, disconnected) \<in> set (settled (run [Connection 7, Connection 8, Send ''getPages'' JUndefined, Close 7] init))"
proof -
  let ?s = "run [Connection 7] init"
  have h: "plugin ?s = Some 7" "ready ?s 7 = OPEN" "7 \<in> set (handlers ?s)" "8 \<notin> set (handlers ?s)"
    by (simp_all add: run_def step_def handleConnection_def init_def)
  have n: "nextId ?s + 1 = 1" "outbox ?s = []" "String_nat 1 = ''1''"
    by (simp_all add: run_def step_def handleConnection_def init_def String_nat.simps digit_def)
  have e: "run [Connection 8, Send ''getPages'' JUndefined, Close 7] ?s =
       run [Connection 7, Connection 8, Send ''getPages'' JUndefined, Close 7] init"
    "run [Connection 8, Send ''getPages'' JUndefined] ?s =
       run [Connection 7, Connection 8, Send ''getPages'' JUndefined] init"
    by (simp_all add: run_def)
  note t = stale_close_rejects_current_requests [OF h, of "''getPages''" JUndefined]
  note t1 = t [unfolded e]
  note t2 = t1 [unfolded n]
  from t2 [unfolded append_Nil] show ?thesis by blast
qed




section \<open>Properties of the projector and the navigator\<close>

lemma map_of_obj_set: "map_of (obj_set ob k v) k' = (if k' = k then Some v else map_of ob k')"
  by (simp add: obj_set_def update_conv')

lemma keys_obj_set: "set (Object_keys (obj_set ob k v)) = insert k (set (Object_keys ob))"
  by (auto simp: obj_set_def Object_keys_def update_keys)

lemma in_keys_iff: "k \<in> set (Object_keys ob) \<longleftrightarrow> map_of ob k \<noteq> None"
  by (simp add: Object_keys_def map_of_eq_None_iff)

lemma filter_obj_set_same:
  "filter (\<lambda>kv. fst kv \<noteq> k) (obj_set ob k v) = filter (\<lambda>kv. fst kv \<noteq> k) ob"
  unfolding obj_set_def by (induction ob) auto

lemma no_children_size: "map_of (simplify_size node s) ''children'' = map_of s ''children''"
  by (simp add: simplify_size_def Let_def map_of_obj_set split: option.splits)

lemma no_children_layout: "map_of (simplify_layout node s) ''children'' = map_of s ''children''"
  by (simp add: simplify_layout_def Let_def map_of_obj_set split: option.splits)

lemma no_children_layout_child: "map_of (simplify_layout_child node s) ''children'' = map_of s ''children''"
  by (simp add: simplify_layout_child_def Let_def map_of_obj_set split: option.splits)

lemma no_children_component: "map_of (simplify_component node s) ''children'' = map_of s ''children''"
  by (simp add: simplify_component_def Let_def map_of_obj_set split: option.splits)

lemma no_children_paints: "map_of (simplify_paints node s) ''children'' = map_of s ''children''"
  by (simp add: simplify_paints_def Let_def map_of_obj_set split: option.splits or_mixed.splits)

lemma no_children_corner: "map_of (simplify_corner node s) ''children'' = map_of s ''children''"
  by (simp add: simplify_corner_def Let_def map_of_obj_set split: option.splits or_mixed.splits)

lemma no_children_text: "map_of (simplify_text node s) ''children'' = map_of s ''children''"
  by (simp add: simplify_text_def Let_def map_of_obj_set split: option.splits or_mixed.splits)

lemmas no_children = no_children_size no_children_layout no_children_layout_child
  no_children_component no_children_paints no_children_corner no_children_text

lemma simplifyNode_no_children: "map_of (simplifyNode n False) ''children'' = None"
  by (cases n) (simp add: Let_def no_children map_of_obj_set split: option.splits)

lemma simplifyNode_filter_children:
  "without_children_field (simplifyNode n False) = simplifyNode n False"
  unfolding without_children_field_def
  using simplifyNode_no_children [of n]
  by (auto simp: filter_id_conv map_of_eq_None_iff image_iff)


lemma getChildrenAtDepth_eq:
  "getChildrenAtDepth n d =
     (case children n of
        Some ch \<Rightarrow>
          if d > 0
          then obj_set (simplifyNode n False) ''children'' (JArr (map (\<lambda>c. JObj (getChildrenAtDepth c (d - 1))) ch))
          else simplifyNode n False
      | None \<Rightarrow> simplifyNode n False)"
  by (cases n) (auto simp add: Let_def simp del: simplifyNode.simps)

lemma getChildrenAtDepth_has_children:
  "has_children_field (getChildrenAtDepth n d) \<longleftrightarrow> d > 0 \<and> children n \<noteq> None"
  unfolding has_children_field_def in_keys_iff
  by (subst getChildrenAtDepth_eq)
     (simp add: map_of_obj_set simplifyNode_no_children split: option.splits)

lemma getChildrenAtDepth_without:
  "without_children_field (getChildrenAtDepth n d) = simplifyNode n False"
  using simplifyNode_filter_children [of n]
  by (subst getChildrenAtDepth_eq)
     (simp add: without_children_field_def filter_obj_set_same split: option.splits)

lemma getChildrenAtDepth_children:
  assumes "d > 0" "children n = Some cs"
  shows "obj_get (getChildrenAtDepth n d) ''children'' = JArr (map (\<lambda>c. JObj (getChildrenAtDepth c (d - 1))) cs)"
  using assms by (subst getChildrenAtDepth_eq) (simp add: obj_get_def map_of_obj_set)

lemma proj_at_getChildrenAtDepth:
  "raw_at n p = Some m \<Longrightarrow> p = [] \<or> of_nat (length p) < d + 1 \<Longrightarrow>
   proj_at (getChildrenAtDepth n d) p = Some (getChildrenAtDepth m (d - of_nat (length p)))"
proof (induction p arbitrary: n d)
  case Nil
  then show ?case by simp
next
  case (Cons i p)
  from Cons.prems(1) obtain cs where cs: "children n = Some cs" and i: "i < length cs"
    and rest: "raw_at (cs ! i) p = Some m"
    by (auto split: option.splits if_splits)
  from Cons.prems(2) have d: "d > 0" by simp
  from Cons.prems(2) have "p = [] \<or> of_nat (length p) < (d - 1) + 1" by auto
  from Cons.IH [OF rest this]
  have "proj_at (getChildrenAtDepth (cs ! i) (d - 1)) p = Some (getChildrenAtDepth m (d - 1 - of_nat (length p)))" .
  moreover have "d - 1 - of_nat (length p) = d - of_nat (length (i # p))" by simp
  ultimately show ?case
    using i by (simp add: getChildrenAtDepth_children [OF d cs] del: getChildrenAtDepth.simps)
qed

text \<open>
  Claim C9. Let \<open>m\<close> be the node reached from the requested node by a path of \<open>k \<ge> 1\<close>
  child positions, with \<open>k < depth + 1\<close> (the levels the answer holds). Then the call
  succeeds, the answer holds at the same path the projection of \<open>m\<close>, and that projection
  carries a \<open>children\<close> field exactly when \<open>k < depth\<close> and \<open>m\<close> is a node with children:
  above the requested depth a container carries the field, at the requested depth
  nothing does. A call without a depth is a call with depth 1.
\<close>

theorem get_children_truncates_at_depth:
  assumes found: "findNodeById figma nodeId = Inr node"
    and path: "raw_at node p = Some m" "p \<noteq> []"
    and level: "of_nat (length p) < (case depth_param of Some d \<Rightarrow> d | None \<Rightarrow> 1) + 1"
  shows "\<exists>r c. handleGetChildren figma nodeId depth_param = Inr r \<and>
           proj_at r p = Some c \<and>
           without_children_field c = simplifyNode m False \<and>
           (has_children_field c \<longleftrightarrow>
              of_nat (length p) < (case depth_param of Some d \<Rightarrow> d | None \<Rightarrow> 1) \<and> children m \<noteq> None) \<and>
           handleGetChildren figma nodeId None = handleGetChildren figma nodeId (Some 1)"
proof -
  define depth where "depth = (case depth_param of Some d \<Rightarrow> d | None \<Rightarrow> (1::rat))"
  from path obtain i q where p: "p = i # q" by (cases p) auto
  from path p obtain cs where cs: "children node = Some cs" and i: "i < length cs"
    and rest: "raw_at (cs ! i) q = Some m"
    by (auto split: option.splits if_splits)
  let ?r = "[(''id'', JStr (node_id (attrs node))), (''name'', JStr (node_name (attrs node))),
             (''type'', JStr (node_type (attrs node))),
             (''children'', JArr (map (\<lambda>c. JObj (getChildrenAtDepth c (depth - 1))) cs))]"
  have r: "handleGetChildren figma nodeId depth_param = Inr ?r"
    by (simp add: handleGetChildren_def found cs depth_def)
  from level have "q = [] \<or> of_nat (length q) < (depth - 1) + 1"
    by (auto simp: p depth_def)
  from proj_at_getChildrenAtDepth [OF rest this]
  have "proj_at (getChildrenAtDepth (cs ! i) (depth - 1)) q = Some (getChildrenAtDepth m (depth - 1 - of_nat (length q)))" .
  moreover have e: "depth - 1 - of_nat (length q) = depth - of_nat (length p)" by (simp add: p)
  ultimately have at: "proj_at ?r p = Some (getChildrenAtDepth m (depth - of_nat (length p)))"
    using i by (simp add: p obj_get_def del: getChildrenAtDepth.simps)
  have "has_children_field (getChildrenAtDepth m (depth - of_nat (length p))) \<longleftrightarrow>
      of_nat (length p) < depth \<and> children m \<noteq> None"
    by (simp add: getChildrenAtDepth_has_children)
  moreover have "handleGetChildren figma nodeId None = handleGetChildren figma nodeId (Some 1)"
    by (simp add: handleGetChildren_def found cs)
  ultimately show ?thesis
    using r at getChildrenAtDepth_without unfolding depth_def by blast
qed


theorem get_children_truncates_at_depth_witness:
  "findNodeById example_figma ''1:1'' = Inr example_screen \<and>
   raw_at example_screen [0, 0] = Some example_row \<and>
   children example_row = Some [example_leaf] \<and>
   (\<exists>r c. handleGetChildren example_figma ''1:1'' (Some 2) = Inr r \<and>
          proj_at r [0, 0] = Some c \<and>
          without_children_field c = simplifyNode example_row False \<and>
          \<not> has_children_field c) \<and>
   raw_at example_screen [0] = Some example_card \<and>
   (\<exists>r c. handleGetChildren example_figma ''1:1'' (Some 2) = Inr r \<and>
          proj_at r [0] = Some c \<and> has_children_field c)"
proof -
  have f: "findNodeById example_figma ''1:1'' = Inr example_screen"
    by (simp add: findNodeById_def example_figma_def)
  have p2: "raw_at example_screen [0, 0] = Some example_row" "[0, 0] \<noteq> ([]::nat list)"
    "rat_of_nat (length [0::nat, 0]) < (case Some 2 of Some d \<Rightarrow> d | None \<Rightarrow> 1) + 1"
    by (simp_all add: example_screen_def example_card_def)
  have p1: "raw_at example_screen [0] = Some example_card" "[0] \<noteq> ([]::nat list)"
    "rat_of_nat (length [0::nat]) < (case Some 2 of Some d \<Rightarrow> d | None \<Rightarrow> 1) + 1"
    by (simp_all add: example_screen_def)
  have c: "children example_row = Some [example_leaf]" "children example_card \<noteq> None"
    by (simp_all add: example_row_def example_card_def)
  from get_children_truncates_at_depth [OF f p2] get_children_truncates_at_depth [OF f p1] f p2(1) p1(1) c
  show ?thesis by simp blast
qed


lemma projected_fields:
  assumes "projected_attrs a = projected_attrs a'"
  shows "a' = a\<lparr> reactions := reactions a', sharedPluginData := sharedPluginData a' \<rparr>"
  using assms by (cases a, cases a') (simp add: projected_attrs_def)

lemma blocks_ignore_unread:
  "simplify_size (a\<lparr> reactions := r, sharedPluginData := d \<rparr>) = simplify_size a"
  "simplify_layout (a\<lparr> reactions := r, sharedPluginData := d \<rparr>) = simplify_layout a"
  "simplify_layout_child (a\<lparr> reactions := r, sharedPluginData := d \<rparr>) = simplify_layout_child a"
  "simplify_component (a\<lparr> reactions := r, sharedPluginData := d \<rparr>) = simplify_component a"
  "simplify_paints (a\<lparr> reactions := r, sharedPluginData := d \<rparr>) = simplify_paints a"
  "simplify_corner (a\<lparr> reactions := r, sharedPluginData := d \<rparr>) = simplify_corner a"
  "simplify_text (a\<lparr> reactions := r, sharedPluginData := d \<rparr>) = simplify_text a"
  by (simp_all add: fun_eq_iff simplify_size_def simplify_layout_def simplify_layout_child_def
      simplify_component_def simplify_paints_def simplify_corner_def simplify_text_def)

lemma simplifyNode_same_own:
  assumes "same_own n n'"
  shows "simplifyNode n False = simplifyNode n' False"
proof -
  obtain a k where n: "n = RawNode a k" by (cases n)
  obtain a' k' where n': "n' = RawNode a' k'" by (cases n')
  from assms have p: "projected_attrs a = projected_attrs a'" and l: "map_option length k = map_option length k'"
    by (simp_all add: same_own_def n n')
  note a' = projected_fields [OF p]
  have ids: "node_id a' = node_id a" "node_name a' = node_name a" "node_type a' = node_type a"
    by (subst a', simp)+
  have blocks: "simplify_size a' = simplify_size a" "simplify_layout a' = simplify_layout a"
    "simplify_layout_child a' = simplify_layout_child a" "simplify_component a' = simplify_component a"
    "simplify_paints a' = simplify_paints a" "simplify_corner a' = simplify_corner a"
    "simplify_text a' = simplify_text a"
    by (subst a', rule blocks_ignore_unread)+
  from l show ?thesis
    unfolding n n' by (cases k; cases k') (simp_all add: ids blocks)
qed

text \<open>
  Claim C4. A projection is computed from the node alone: it reads the node's attributes
  other than the reactions and the plugin data, the number of its children and, with
  \<open>includeChildren\<close>, the same of each child. Two nodes that agree in all of that (a node
  and itself, or the same node at two moments between which none of it changed) have
  equal projections, with the same keys in the same order and the same values, and so
  the same serialized text.
\<close>

theorem projection_depends_on_read_attributes_only:
  assumes "same_view includeChildren n n'"
  shows "simplifyNode n includeChildren = simplifyNode n' includeChildren \<and>
         JSON_stringify (JObj (simplifyNode n includeChildren)) =
         JSON_stringify (JObj (simplifyNode n' includeChildren))"
proof -
  have "simplifyNode n includeChildren = simplifyNode n' includeChildren"
  proof (cases includeChildren)
    case False
    with assms show ?thesis by (simp add: same_view_def simplifyNode_same_own)
  next
    case True
    obtain a k where n: "n = RawNode a k" by (cases n)
    obtain a' k' where n': "n' = RawNode a' k'" by (cases n')
    from assms True have own: "same_own n n'"
      and kids: "case (k, k') of (Some cs, Some cs') \<Rightarrow> list_all2 same_own cs cs' | (None, None) \<Rightarrow> True | _ \<Rightarrow> False"
      by (simp_all add: same_view_def n n')
    from own have p: "projected_attrs a = projected_attrs a'"
      by (simp add: same_own_def n n')
    note a' = projected_fields [OF p]
    have ids: "node_id a' = node_id a" "node_name a' = node_name a" "node_type a' = node_type a"
      by (subst a', simp)+
    have blocks: "simplify_size a' = simplify_size a" "simplify_layout a' = simplify_layout a"
      "simplify_layout_child a' = simplify_layout_child a" "simplify_component a' = simplify_component a"
      "simplify_paints a' = simplify_paints a" "simplify_corner a' = simplify_corner a"
      "simplify_text a' = simplify_text a"
      by (subst a', rule blocks_ignore_unread)+
    have arr: "map (\<lambda>c. JObj (simplifyNode c False)) cs = map (\<lambda>c. JObj (simplifyNode c False)) cs'"
      if "list_all2 same_own cs cs'" for cs cs'
      using that by (induction rule: list_all2_induct) (simp_all add: simplifyNode_same_own)
    have len: "length cs = length cs'" if "list_all2 same_own cs cs'" for cs cs'
      using that by (rule list_all2_lengthD)
    show ?thesis
    proof (cases k)
      case None
      with kids have "k' = None" by (cases k') simp_all
      with None True show ?thesis unfolding n n' by (simp add: ids blocks)
    next
      case (Some cs)
      with kids obtain cs' where k': "k' = Some cs'" and all: "list_all2 same_own cs cs'"
        by (cases k') simp_all
      from arr [OF all] len [OF all] True show ?thesis
        unfolding n n' Some k' by (simp add: ids blocks)
    qed
  qed
  then show ?thesis by simp
qed

theorem projection_depends_on_read_attributes_only_witness:
  "same_view True example_card example_card_twin \<and> example_card \<noteq> example_card_twin \<and>
   simplifyNode example_card True = simplifyNode example_card_twin True \<and>
   JSON_stringify (JObj (simplifyNode example_card True)) = JSON_stringify (JObj (simplifyNode example_card_twin True)) \<and>
   same_view True example_card example_card"
proof -
  have v: "same_view True example_card example_card_twin"
    by (simp add: same_view_def same_own_def projected_attrs_def example_card_def example_card_twin_def
        example_row_def example_leaf_def base_attrs_def)
  have r: "same_view True example_card example_card"
    by (simp add: same_view_def same_own_def example_card_def list_all2_same)
  have ne: "example_card \<noteq> example_card_twin"
    by (simp add: example_card_def example_card_twin_def base_attrs_def)
  from projection_depends_on_read_attributes_only [OF v] v r ne show ?thesis by simp
qed


section \<open>Properties of the differ and the scorer\<close>

lemma Math_round_of_int: "Math_round (of_int i) = i"
  unfolding Math_round_def by (rule floor_unique) simp_all

lemma Math_round_numeral [simp]: "Math_round (numeral k) = numeral k"
  using Math_round_of_int [of "numeral k"] by simp

lemma fold_Set_from:
  "distinct acc \<Longrightarrow>
   distinct (fold (\<lambda>x s. if x \<in> set s then s else s @ [x]) xs acc) \<and>
   set (fold (\<lambda>x s. if x \<in> set s then s else s @ [x]) xs acc) = set acc \<union> set xs"
  by (induction xs arbitrary: acc) auto

lemma distinct_Set_from: "distinct (Set_from xs)"
  using fold_Set_from [of "[]" xs] by (simp add: Set_from_def)

lemma set_Set_from: "set (Set_from xs) = set xs"
  using fold_Set_from [of "[]" xs] by (simp add: Set_from_def)

lemma obj_set_fresh: "k \<notin> fst ` set ob \<Longrightarrow> obj_set ob k v = ob @ [(k, v)]"
  unfolding obj_set_def by (induction ob) auto

lemma compare_loop_self: "compare_loop ks A A acc = acc"
  by (induction ks arbitrary: acc) simp_all

lemma compare_loop_eq:
  "distinct ks \<Longrightarrow> set ks \<inter> fst ` set acc = {} \<Longrightarrow>
   compare_loop ks A B acc =
     acc @ map (\<lambda>k. (k, JObj [(''a'', obj_get A k), (''b'', obj_get B k)])) (filter (differs A B) ks)"
proof (induction ks arbitrary: acc)
  case Nil
  then show ?case by simp
next
  case (Cons k ks)
  show ?case
  proof (cases "differs A B k")
    case True
    from Cons.prems have fresh: "k \<notin> fst ` set acc" by auto
    let ?acc = "acc @ [(k, JObj [(''a'', obj_get A k), (''b'', obj_get B k)])]"
    from Cons.prems have "distinct ks" "set ks \<inter> fst ` set ?acc = {}" by auto
    from Cons.IH [OF this] True fresh show ?thesis
      by (simp add: Let_def obj_set_fresh differs_def)
  next
    case False
    from Cons.prems have "distinct ks" "set ks \<inter> fst ` set acc = {}" by auto
    from Cons.IH [OF this] False show ?thesis
      by (simp add: Let_def differs_def)
  qed
qed

lemma compare_result_eq:
  assumes "findNodeById figma idA = Inr nA" "findNodeById figma idB = Inr nB"
  shows "handleCompareVariants figma idA idB =
     Inr \<lparr> nodeA = (node_id (attrs nA), node_name (attrs nA)),
           nodeB = (node_id (attrs nB), node_name (attrs nB)),
           differences = map (\<lambda>k. (k, JObj [(''a'', obj_get (simplifyNode nA True) k), (''b'', obj_get (simplifyNode nB True) k)]))
              (filter (differs (simplifyNode nA True) (simplifyNode nB True))
                 (Set_from (Object_keys (simplifyNode nA True) @ Object_keys (simplifyNode nB True)))),
           differenceCount = length (filter (differs (simplifyNode nA True) (simplifyNode nB True))
                 (Set_from (Object_keys (simplifyNode nA True) @ Object_keys (simplifyNode nB True)))) \<rparr>"
  using assms
  by (simp add: handleCompareVariants_def Let_def compare_loop_eq distinct_Set_from Object_keys_def comp_def
      del: simplifyNode.simps)

lemma differs_sym: "differs A B = differs B A"
  by (auto simp: differs_def fun_eq_iff)

lemma map_of_diff_list:
  "map_of (map (\<lambda>k. (k, f k)) ks) k = (if k \<in> set ks then Some (f k) else None)"
  by (induction ks) auto

lemma length_filter_card: "distinct ks \<Longrightarrow> length (filter P ks) = card {k \<in> set ks. P k}"
  by (simp add: distinct_length_filter Int_def conj_commute)

text \<open>
  Claim C8. Comparing a node to itself gives an empty difference map and the count 0.
  Comparing \<open>A\<close> to \<open>B\<close> and \<open>B\<close> to \<open>A\<close> gives maps with the same set of keys and the same
  count (the number of keys of the map); every entry is a pair labelled \<open>a\<close> and \<open>b\<close>, and an
  entry of one map is the entry of the other with the two values exchanged.
\<close>

theorem compare_variants_symmetric:
  assumes "findNodeById figma idA = Inr nA" "findNodeById figma idB = Inr nB"
  shows "\<exists>rAA rAB rBA.
     handleCompareVariants figma idA idA = Inr rAA \<and> differences rAA = [] \<and> differenceCount rAA = 0 \<and>
     handleCompareVariants figma idA idB = Inr rAB \<and>
     handleCompareVariants figma idB idA = Inr rBA \<and>
     set (Object_keys (differences rAB)) = set (Object_keys (differences rBA)) \<and>
     differenceCount rAB = differenceCount rBA \<and>
     differenceCount rAB = length (Object_keys (differences rAB)) \<and>
     (\<forall>k va vb. map_of (differences rAB) k = Some (JObj [(''a'', va), (''b'', vb)]) \<longleftrightarrow>
                 map_of (differences rBA) k = Some (JObj [(''a'', vb), (''b'', va)])) \<and>
     (\<forall>k \<in> set (Object_keys (differences rAB)). \<exists>va vb. map_of (differences rAB) k = Some (JObj [(''a'', va), (''b'', vb)]))"
proof -
  let ?A = "simplifyNode nA True" and ?B = "simplifyNode nB True"
  let ?ab = "Set_from (Object_keys ?A @ Object_keys ?B)"
  let ?ba = "Set_from (Object_keys ?B @ Object_keys ?A)"
  have self: "filter (differs ?A ?A) ks = []" for ks
    by (simp add: differs_def)
  have sets: "set (filter (differs ?A ?B) ?ab) = set (filter (differs ?B ?A) ?ba)"
    by (auto simp: set_Set_from differs_sym [of ?A ?B])
  have "length (filter (differs ?A ?B) ?ab) = card (set (filter (differs ?A ?B) ?ab))"
    by (rule distinct_card [symmetric]) (simp add: distinct_Set_from)
  also have "\<dots> = card (set (filter (differs ?B ?A) ?ba))" by (simp only: sets)
  also have "\<dots> = length (filter (differs ?B ?A) ?ba)"
    by (rule distinct_card) (simp add: distinct_Set_from)
  finally have len: "length (filter (differs ?A ?B) ?ab) = length (filter (differs ?B ?A) ?ba)" .
  have mem: "k \<in> set (filter (differs ?A ?B) ?ab) \<longleftrightarrow> k \<in> set (filter (differs ?B ?A) ?ba)" for k
    by (simp only: sets)
  define dAB where "dAB = map (\<lambda>k. (k, JObj [(''a'', obj_get ?A k), (''b'', obj_get ?B k)])) (filter (differs ?A ?B) ?ab)"
  define dBA where "dBA = map (\<lambda>k. (k, JObj [(''a'', obj_get ?B k), (''b'', obj_get ?A k)])) (filter (differs ?B ?A) ?ba)"
  have rAA: "handleCompareVariants figma idA idA =
      Inr \<lparr> nodeA = (node_id (attrs nA), node_name (attrs nA)), nodeB = (node_id (attrs nA), node_name (attrs nA)),
            differences = [], differenceCount = 0 \<rparr>"
    unfolding compare_result_eq [OF assms(1) assms(1)] by (simp add: self)
  have rAB: "handleCompareVariants figma idA idB =
      Inr \<lparr> nodeA = (node_id (attrs nA), node_name (attrs nA)), nodeB = (node_id (attrs nB), node_name (attrs nB)),
            differences = dAB, differenceCount = length (filter (differs ?A ?B) ?ab) \<rparr>"
    unfolding compare_result_eq [OF assms(1) assms(2)] dAB_def ..
  have rBA: "handleCompareVariants figma idB idA =
      Inr \<lparr> nodeA = (node_id (attrs nB), node_name (attrs nB)), nodeB = (node_id (attrs nA), node_name (attrs nA)),
            differences = dBA, differenceCount = length (filter (differs ?B ?A) ?ba) \<rparr>"
    unfolding compare_result_eq [OF assms(2) assms(1)] dBA_def ..
  have kAB: "Object_keys dAB = filter (differs ?A ?B) ?ab" and kBA: "Object_keys dBA = filter (differs ?B ?A) ?ba"
    by (simp_all add: dAB_def dBA_def Object_keys_def comp_def)
  have mAB: "map_of dAB k = (if k \<in> set (filter (differs ?A ?B) ?ab)
       then Some (JObj [(''a'', obj_get ?A k), (''b'', obj_get ?B k)]) else None)" for k
    unfolding dAB_def by (rule map_of_diff_list)
  have mBA: "map_of dBA k = (if k \<in> set (filter (differs ?A ?B) ?ab)
       then Some (JObj [(''a'', obj_get ?B k), (''b'', obj_get ?A k)]) else None)" for k
    unfolding dBA_def mem by (rule map_of_diff_list)
  have p1: "set (Object_keys dAB) = set (Object_keys dBA)"
    by (simp only: kAB kBA sets)
  have p2: "length (filter (differs ?A ?B) ?ab) = length (Object_keys dAB)"
    by (simp only: kAB)
  have p3: "map_of dAB k = Some (JObj [(''a'', va), (''b'', vb)]) \<longleftrightarrow>
            map_of dBA k = Some (JObj [(''a'', vb), (''b'', va)])" for k va vb
    unfolding mAB mBA by auto
  have p4: "\<exists>va vb. map_of dAB k = Some (JObj [(''a'', va), (''b'', vb)])" if "k \<in> set (Object_keys dAB)" for k
    using that unfolding mAB kAB by simp
  let ?rAA = "\<lparr> nodeA = (node_id (attrs nA), node_name (attrs nA)), nodeB = (node_id (attrs nA), node_name (attrs nA)),
            differences = [], differenceCount = 0 \<rparr>"
  let ?rAB = "\<lparr> nodeA = (node_id (attrs nA), node_name (attrs nA)), nodeB = (node_id (attrs nB), node_name (attrs nB)),
            differences = dAB, differenceCount = length (filter (differs ?A ?B) ?ab) \<rparr>"
  let ?rBA = "\<lparr> nodeA = (node_id (attrs nB), node_name (attrs nB)), nodeB = (node_id (attrs nA), node_name (attrs nA)),
            differences = dBA, differenceCount = length (filter (differs ?B ?A) ?ba) \<rparr>"
  have "handleCompareVariants figma idA idA = Inr ?rAA \<and> differences ?rAA = [] \<and> differenceCount ?rAA = 0 \<and>
     handleCompareVariants figma idA idB = Inr ?rAB \<and>
     handleCompareVariants figma idB idA = Inr ?rBA \<and>
     set (Object_keys (differences ?rAB)) = set (Object_keys (differences ?rBA)) \<and>
     differenceCount ?rAB = differenceCount ?rBA \<and>
     differenceCount ?rAB = length (Object_keys (differences ?rAB)) \<and>
     (\<forall>k va vb. map_of (differences ?rAB) k = Some (JObj [(''a'', va), (''b'', vb)]) \<longleftrightarrow>
                 map_of (differences ?rBA) k = Some (JObj [(''a'', vb), (''b'', va)])) \<and>
     (\<forall>k \<in> set (Object_keys (differences ?rAB)). \<exists>va vb. map_of (differences ?rAB) k = Some (JObj [(''a'', va), (''b'', vb)]))"
    using rAA rAB rBA p1 p2 p3 p4 len by simp
  then show ?thesis by blast
qed

lemma similarity_loop_eq:
  "similarity_loop ks a b (m, t) =
     (m + length (filter (\<lambda>k. k \<notin> set skip \<and> \<not> differs a b k) ks),
      t + length (filter (\<lambda>k. k \<notin> set skip) ks))"
  by (induction ks arbitrary: m t) (simp_all add: differs_def)

text \<open>
  Claim C7, amended. The keys left out of the score are \<open>id\<close>, \<open>name\<close> and \<open>children\<close>.
  The score is the number of the remaining keys of either projection whose serialized
  values are equal, divided by the number of the remaining keys; \<open>type\<close> and
  \<open>childCount\<close> are counted like any attribute. When no key remains the score is 0.
\<close>

theorem similarity_is_ratio_over_non_skipped_keys:
  "computeSimilarity a b =
     (if set (Object_keys a) \<union> set (Object_keys b) - {''id'', ''name'', ''children''} = {} then 0
      else of_nat (card {k \<in> set (Object_keys a) \<union> set (Object_keys b) - {''id'', ''name'', ''children''}.
                         JSON_stringify (obj_get a k) = JSON_stringify (obj_get b k)}) /
           of_nat (card (set (Object_keys a) \<union> set (Object_keys b) - {''id'', ''name'', ''children''})))"
proof -
  let ?ks = "Set_from (Object_keys a @ Object_keys b)"
  let ?K = "set (Object_keys a) \<union> set (Object_keys b) - {''id'', ''name'', ''children''}"
  have d: "distinct ?ks" by (rule distinct_Set_from)
  have t: "length (filter (\<lambda>k. k \<notin> set skip) ?ks) = card ?K"
  proof -
    have "{k \<in> set ?ks. k \<notin> set skip} = ?K" by (auto simp: set_Set_from skip_def)
    then show ?thesis by (simp add: length_filter_card [OF d])
  qed
  have m: "length (filter (\<lambda>k. k \<notin> set skip \<and> \<not> differs a b k) ?ks) =
      card {k \<in> ?K. JSON_stringify (obj_get a k) = JSON_stringify (obj_get b k)}"
  proof -
    have "{k \<in> set ?ks. k \<notin> set skip \<and> \<not> differs a b k} =
        {k \<in> ?K. JSON_stringify (obj_get a k) = JSON_stringify (obj_get b k)}"
      by (auto simp: set_Set_from skip_def differs_def)
    then show ?thesis by (simp add: length_filter_card [OF d])
  qed
  have fin: "finite ?K" by simp
  have loop: "similarity_loop ?ks a b (0, 0) =
      (card {k \<in> ?K. JSON_stringify (obj_get a k) = JSON_stringify (obj_get b k)}, card ?K)"
    unfolding similarity_loop_eq t m by simp
  have "computeSimilarity a b =
      (if card ?K > 0
       then of_nat (card {k \<in> ?K. JSON_stringify (obj_get a k) = JSON_stringify (obj_get b k)}) / of_nat (card ?K)
       else 0)"
    unfolding computeSimilarity_def Let_def loop by simp
  also have "card ?K > 0 \<longleftrightarrow> ?K \<noteq> {}"
    using fin by (simp only: card_gt_0_iff) simp
  finally show ?thesis by (simp cong: if_cong)
qed

text \<open>
  Claim C7, as stated, fails. Two rectangles that differ in their width have no
  attribute in common, so the score of the claim is 0; the code counts \<open>type\<close> and gives
  1/2. Two nodes with no attribute at all have the score 0 by the claim's rule for an
  empty union; the code gives 1.
\<close>

theorem similarity_counts_type_and_childCount:
  "computeSimilarity (simplifyNode example_rect_a False) (simplifyNode example_rect_b False) = 1 / 2 \<and>
   spec_similarity (simplifyNode example_rect_a False) (simplifyNode example_rect_b False) = 0 \<and>
   computeSimilarity (simplifyNode example_bare_a False) (simplifyNode example_bare_b False) = 1 \<and>
   spec_similarity (simplifyNode example_bare_a False) (simplifyNode example_bare_b False) = 0"
  by (simp add: example_rect_a_def example_rect_b_def example_bare_a_def example_bare_b_def
      base_attrs_def Let_def simplify_size_def simplify_layout_def
      simplify_layout_child_def simplify_component_def simplify_paints_def simplify_corner_def
      simplify_text_def obj_set_def
      computeSimilarity_def spec_similarity_def Set_from_def Object_keys_def skip_def obj_get_def JSON_stringify_def
      String_num_def String_int_def String_nat.simps digit_def quote_def escape_char_def)


lemma simplify_rect_a:
  "simplifyNode example_rect_a False =
     [(''id'', JStr ''2:1''), (''name'', JStr ''A''), (''type'', JStr ''RECTANGLE''), (''width'', JNum 10)]"
  by (simp add: example_rect_a_def base_attrs_def Let_def simplify_size_def simplify_layout_def
      simplify_layout_child_def simplify_component_def simplify_paints_def simplify_corner_def
      simplify_text_def obj_set_def)

lemma simplify_rect_b:
  "simplifyNode example_rect_b False =
     [(''id'', JStr ''2:2''), (''name'', JStr ''B''), (''type'', JStr ''RECTANGLE''), (''width'', JNum 20)]"
  by (simp add: example_rect_b_def base_attrs_def Let_def simplify_size_def simplify_layout_def
      simplify_layout_child_def simplify_component_def simplify_paints_def simplify_corner_def
      simplify_text_def obj_set_def)

theorem similarity_is_ratio_over_non_skipped_keys_witness:
  "computeSimilarity (simplifyNode example_rect_a False) (simplifyNode example_rect_b False) = 1 / 2"
proof -
  let ?a = "simplifyNode example_rect_a False" and ?b = "simplifyNode example_rect_b False"
  have K: "set (Object_keys ?a) \<union> set (Object_keys ?b) - {''id'', ''name'', ''children''} = {''type'', ''width''}"
    unfolding simplify_rect_a simplify_rect_b by (auto simp: Object_keys_def)
  have M: "{k \<in> {''type'', ''width''}. JSON_stringify (obj_get ?a k) = JSON_stringify (obj_get ?b k)} = {''type''}"
    unfolding simplify_rect_a simplify_rect_b
    by (auto simp: obj_get_def JSON_stringify_def String_num_def String_int_def String_nat.simps digit_def)
  from similarity_is_ratio_over_non_skipped_keys [of ?a ?b]
  show ?thesis unfolding K M by simp
qed

theorem compare_variants_symmetric_witness:
  "findNodeById example_figma ''2:1'' = Inr example_rect_a \<and>
   findNodeById example_figma ''2:2'' = Inr example_rect_b \<and>
   (\<exists>rAA rAB rBA.
     handleCompareVariants example_figma ''2:1'' ''2:1'' = Inr rAA \<and> differences rAA = [] \<and> differenceCount rAA = 0 \<and>
     handleCompareVariants example_figma ''2:1'' ''2:2'' = Inr rAB \<and>
     handleCompareVariants example_figma ''2:2'' ''2:1'' = Inr rBA \<and>
     set (Object_keys (differences rAB)) = set (Object_keys (differences rBA)) \<and>
     differenceCount rAB = differenceCount rBA)"
proof -
  have f: "findNodeById example_figma ''2:1'' = Inr example_rect_a"
    "findNodeById example_figma ''2:2'' = Inr example_rect_b"
    by (simp_all add: findNodeById_def example_figma_def)
  from compare_variants_symmetric [OF f] f show ?thesis by blast
qed


section \<open>Properties of the state inference\<close>

lemmas infer_eval = handleInferStates_def findNodeById_def example_document_def example_component_set_def
  example_variant_def base_attrs_def Let_def split_def split_from.simps trim_def is_space_def
  toLowerCase_def lower_char_def interactionStates_def infer_transitions_def found_def found_either_def
  transition_def annotation_source_def

text \<open>
  Claim C5 at a component set whose variants are \<open>State=Hover\<close> and \<open>State=Focus\<close>: two
  canonical states are present, \<open>Default\<close> is not among them, and the answer holds the
  transitions \<open>Default\<close> to \<open>Focus\<close> and back. The branches for hover and for active test
  both of their end points; the branch for focus tests \<open>Focus\<close> alone.
\<close>

theorem focus_transition_without_default:
  "handleInferStates JSON_parse
     (example_document (example_component_set []
        [example_variant ''5:1'' ''State=Hover'', example_variant ''5:2'' ''State=Focus''])) ''5:0'' =
   Inr \<lparr> inf_nodeId = ''5:0'', inf_nodeName = ''Button'',
         inf_states = [JStr ''Hover'', JStr ''Focus''],
         inf_transitions = [transition ''Default'' ''Focus'' ''ON_FOCUS'', transition ''Focus'' ''Default'' ''ON_BLUR''],
         inf_confidence = 4 / 10,
         inf_sources = [''variant-names''],
         inf_openQuestions = [''No designer annotations found. Consider using forage_annotate_state to add explicit state rules.''],
         inf_suggestedImplementation = Some (''useState '' @ em_dash @ '' simple enough for a single state variable'') \<rparr>"
  by (simp add: infer_eval)

text \<open>
  Claim C6 at a component set with one variant \<open>State=Default\<close> and an annotation text
  that does not parse: the call succeeds, but \<open>annotations\<close> is among the sources and
  the confidence is 0.4 + 0.3, because the source is entered before the text is parsed.
\<close>

theorem unparseable_annotation_counted:
  "handleInferStates (\<lambda>_. None)
     (example_document (example_component_set ''{oops'' [example_variant ''5:1'' ''State=Default''])) ''5:0'' =
   Inr \<lparr> inf_nodeId = ''5:0'', inf_nodeName = ''Button'',
         inf_states = [JStr ''Default''],
         inf_transitions = [],
         inf_confidence = 7 / 10,
         inf_sources = [''variant-names'', ''annotations''],
         inf_openQuestions = [''States were found but no transitions could be inferred. How do users move between states?''],
         inf_suggestedImplementation = Some (''useState '' @ em_dash @ '' simple enough for a single state variable'') \<rparr>"
  by (simp add: infer_eval)


section \<open>Further properties\<close>

text \<open>
  A component set with the variants \<open>State=Default\<close> and \<open>State=Hover\<close>, without reactions
  and without an annotation: the states are \<open>Default\<close> and \<open>Hover\<close>, the transitions lead
  from \<open>Default\<close> to \<open>Hover\<close> and back, and the confidence is 0.4.
\<close>

theorem infer_states_default_hover:
  "handleInferStates JSON_parse
     (example_document (example_component_set []
        [example_variant ''5:1'' ''State=Default'', example_variant ''5:2'' ''State=Hover''])) ''5:0'' =
   Inr \<lparr> inf_nodeId = ''5:0'', inf_nodeName = ''Button'',
         inf_states = [JStr ''Default'', JStr ''Hover''],
         inf_transitions = [transition ''Default'' ''Hover'' ''ON_HOVER'', transition ''Hover'' ''Default'' ''MOUSE_LEAVE''],
         inf_confidence = 4 / 10,
         inf_sources = [''variant-names''],
         inf_openQuestions = [''No designer annotations found. Consider using forage_annotate_state to add explicit state rules.''],
         inf_suggestedImplementation = Some (''useState '' @ em_dash @ '' simple enough for a single state variable'') \<rparr>"
  by (simp add: infer_eval)

lemma nextId_step: "nextId s \<le> nextId (step e s)"
proof (cases e)
  case (Send m ps)
  show ?thesis
  proof (cases "connected_bridge s")
    case True
    then obtain p where "plugin s = Some p" "ready s p = OPEN"
      by (auto simp: connected_bridge_def split: option.splits)
    then show ?thesis by (simp add: Send step_def send_accepted)
  next
    case False
    then show ?thesis by (simp add: Send step_def send_refused)
  qed
next
  case BridgeClose
  then show ?thesis by (simp add: step_def close_fields)
qed (simp_all add: step_def handleConnection_def on_message_def on_close_fields on_error_def on_timeout_def
      clearTimeout_def pending_delete_def call_reject_def call_resolve_def Let_def split: option.splits)

lemma nextId_run: "nextId s \<le> nextId (run es s)"
  unfolding run_def
proof (induction es arbitrary: s)
  case Nil
  show ?case by simp
next
  case (Cons e es)
  have "nextId s \<le> nextId (step e s)" by (rule nextId_step)
  also have "\<dots> \<le> nextId (fold step es (step e s))" by (rule Cons.IH)
  finally show ?case by simp
qed

text \<open>
  The counter of correlation ids never decreases. In every state the bridge can reach,
  the id the next \<open>send\<close> will take is not a key of the map and no callback of that
  request has been called; and \<open>String\<close> gives different ids to different numbers.
\<close>

theorem correlation_ids_fresh_and_increasing:
  "nextId (run es init) \<le> nextId (run (es @ es') init) \<and>
   map_of (pendingRequests (run es init)) (String_nat (nextId (run es init) + 1)) = None \<and>
   fires (nextId (run es init) + 1) (run es init) = 0 \<and>
   inj String_nat"
proof -
  have inv: "bridge_inv (run es init)" by (rule inv_run [OF inv_init])
  have "run (es @ es') init = run es' (run es init)" by (simp add: run_def)
  then have "nextId (run es init) \<le> nextId (run (es @ es') init)" by (simp add: nextId_run)
  moreover have "inj String_nat" by (rule injI) (rule String_nat_inject)
  moreover have "fires (nextId (run es init) + 1) (run es init) = 0"
    using inv_fresh(3) [OF inv] by (simp add: fires_def)
  ultimately show ?thesis using inv_fresh(1) [OF inv] by blast
qed

text \<open>
  A frame that does not parse, and a response whose id has no entry in the map (a stray
  or repeated response), leave the bridge as it is.
\<close>

theorem stray_frames_are_dropped:
  "on_message None s = s \<and>
   (map_of (pendingRequests s) (resp_id r) = None \<longrightarrow> on_message (Some r) s = s)"
  by (simp add: on_message_def)

theorem stray_frames_are_dropped_witness:
  "on_message (Some \<lparr> resp_id = ''1'', resp_result = JNull, resp_error = None \<rparr>)
     (on_message (Some \<lparr> resp_id = ''1'', resp_result = JNull, resp_error = None \<rparr>)
        (run [Connection 1, Send ''getPages'' JUndefined] init)) =
   on_message (Some \<lparr> resp_id = ''1'', resp_result = JNull, resp_error = None \<rparr>)
     (run [Connection 1, Send ''getPages'' JUndefined] init) \<and>
   settled (on_message (Some \<lparr> resp_id = ''1'', resp_result = JNull, resp_error = None \<rparr>)
     (run [Connection 1, Send ''getPages'' JUndefined] init)) = [(1, Resolved JNull)]"
proof -
  let ?r = "\<lparr> resp_id = ''1'', resp_result = JNull, resp_error = None \<rparr>"
  let ?s = "on_message (Some ?r) (run [Connection 1, Send ''getPages'' JUndefined] init)"
  have s: "pendingRequests ?s = []" "settled ?s = [(1, Resolved JNull)]"
    by (subst run_example, simp add: on_message_def clearTimeout_def pending_delete_def call_resolve_def)+
  then have "map_of (pendingRequests ?s) (resp_id ?r) = None" by simp
  with stray_frames_are_dropped [of ?s ?r] s show ?thesis by simp
qed


theorem correlation_ids_fresh_and_increasing_witness:
  "nextId (run [Connection 1, Send ''getPages'' JUndefined] init) = 1 \<and>
   nextId (run [Connection 1, Send ''getPages'' JUndefined] init)
     \<le> nextId (run ([Connection 1, Send ''getPages'' JUndefined] @ [Send ''getSelection'' JUndefined]) init) \<and>
   map_of (pendingRequests (run [Connection 1, Send ''getPages'' JUndefined] init)) ''2'' = None"
proof -
  have n: "nextId (run [Connection 1, Send ''getPages'' JUndefined] init) = 1"
    by (subst run_example) simp
  have k: "String_nat (1 + 1) = ''2''"
    by (simp add: String_nat.simps digit_def)
  from correlation_ids_fresh_and_increasing
    [of "[Connection 1, Send ''getPages'' JUndefined]" "[Send ''getSelection'' JUndefined]"]
  show ?thesis unfolding n k by blast
qed

text \<open>
  \<open>handleFindSimilar\<close> answers with at most 20 entries, the first 20 of all matches in
  the order of falling score, and with the number of all matches.
\<close>

theorem find_similar_capped_and_ranked:
  assumes "handleFindSimilar figma nodeId threshold = Inr r"
  shows "length (similar r) \<le> 20 \<and> length (similar r) = min 20 (sim_total r) \<and>
         sorted (map (\<lambda>e. - similarity e) (similar r))"
proof -
  from assms obtain targetNode where t: "findNodeById figma nodeId = Inr targetNode"
    by (auto simp: handleFindSimilar_def split: sum.splits)
  define ranked where "ranked = sort_key (\<lambda>e. - similarity e)
     (similar_loop (findAll (currentPage figma)
         (\<lambda>n. node_type (attrs n) = node_type (attrs targetNode) \<and> node_id (attrs n) \<noteq> node_id (attrs targetNode)))
       (simplifyNode targetNode False) (case threshold of Some t \<Rightarrow> t | None \<Rightarrow> 7 / 10) [])"
  from assms t have r: "similar r = take 20 ranked" "sim_total r = length ranked"
    by (auto simp: handleFindSimilar_def Let_def ranked_def simp del: simplifyNode.simps)
  have "sorted (map (\<lambda>e. - similarity e) ranked)"
    unfolding ranked_def by (rule sorted_sort_key)
  then have "sorted (take 20 (map (\<lambda>e. - similarity e) ranked))"
    by (rule sorted_wrt_take)
  then show ?thesis
    by (simp add: r take_map min_def)
qed

theorem find_similar_capped_and_ranked_witness:
  "\<exists>r. handleFindSimilar example_figma ''2:1'' (Some (1 / 2)) = Inr r \<and>
       length (similar r) \<le> 20 \<and> length (similar r) = min 20 (sim_total r) \<and>
       sorted (map (\<lambda>e. - similarity e) (similar r))"
proof -
  have "findNodeById example_figma ''2:1'' = Inr example_rect_a"
    by (simp add: findNodeById_def example_figma_def)
  then obtain r where r: "handleFindSimilar example_figma ''2:1'' (Some (1 / 2)) = Inr r"
    by (simp add: handleFindSimilar_def Let_def del: simplifyNode.simps)
  from find_similar_capped_and_ranked [OF r] r show ?thesis by blast
qed


end
